theory Spec2Isabelle
  imports Main "HOL-Library.Word"
begin

unbundle bit_operations_syntax

section \<open>The PostgreSQL adapter: values, scratch buffers and binary encoders\<close>

text \<open>
  Source: \<^verbatim>\<open>src/server/psql_adapter.c\<close>. The host is taken to be LP64 (\<^verbatim>\<open>long\<close> and
  pointers are 8 bytes, \<^verbatim>\<open>int\<close> is 4 bytes). A \<^verbatim>\<open>double\<close> is carried as its 64 IEEE-754
  bits: the adapter only ever copies these bits, it never computes with them, apart from the
  server timestamp, whose bits are an input of the model.
\<close>

type_synonym byte = "8 word"

text \<open>The semantic types named by \<^verbatim>\<open>psql_type_map\<close>, in the order of that table.\<close>

datatype OmlValueT =
    OML_DB_PRIMARY_KEY
  | OML_LONG_VALUE
  | OML_DOUBLE_VALUE
  | OML_STRING_VALUE
  | OML_BLOB_VALUE
  | OML_INT32_VALUE
  | OML_UINT32_VALUE
  | OML_INT64_VALUE
  | OML_UINT64_VALUE
  | OML_GUID_VALUE
  | OML_BOOL_VALUE
  | OML_VECTOR_DOUBLE_VALUE
  | OML_VECTOR_INT32_VALUE
  | OML_VECTOR_UINT32_VALUE
  | OML_VECTOR_INT64_VALUE
  | OML_VECTOR_UINT64_VALUE
  | OML_VECTOR_BOOL_VALUE

text \<open>
  \<^verbatim>\<open>OmlValueU\<close> is a C union. The record has one field per member that \<^verbatim>\<open>psql_insert\<close> reads;
  a field holds what reading that member yields. No relation between the members is built in,
  so a statement proved for every record holds whatever the layout of the union is.
\<close>

record OmlValueU =
  longValue :: "64 word"
  doubleValue :: "64 word"
  int32Value :: "32 word"
  uint32Value :: "32 word"
  int64Value :: "64 word"
  uint64Value :: "64 word"
  guidValue :: "64 word"
  boolValue :: "8 word"
  stringValue_ptr :: "string option"
  stringValue_length :: nat
  blobValue_ptr :: "byte list"
  blobValue_length :: nat
  vectorValue_ptr :: "byte list"
  vectorValue_nof_elts :: nat

record OmlValue =
  otype :: OmlValueT
  ovalue :: OmlValueU

definition oml_value_get_type :: "OmlValue \<Rightarrow> OmlValueT" where
  "oml_value_get_type v = otype v"

definition oml_value_get_value :: "OmlValue \<Rightarrow> OmlValueU" where
  "oml_value_get_value v = ovalue v"

record schema_field =
  fname :: string
  ftype :: OmlValueT

record schema =
  sname :: string
  sfields :: "schema_field list"

text \<open>\<^verbatim>\<open>nfields\<close> is the length of \<^verbatim>\<open>fields\<close> (here \<open>sfields\<close>).\<close>

definition nfields :: "schema \<Rightarrow> nat" where
  "nfields s = length (sfields s)"

text \<open>
  Modelled from the spec: \<^verbatim>\<open>NMETA\<close>, the number of metadata columns prepended to every table
  (\<^verbatim>\<open>oml_sender_id\<close>, \<^verbatim>\<open>oml_seq\<close>, \<^verbatim>\<open>oml_ts_client\<close>, \<^verbatim>\<open>oml_ts_server\<close>); the macro is defined in
  a header that is not among the sources.
\<close>

definition NMETA :: nat where
  "NMETA = 4"

definition MAX_DIGITS :: nat where
  "MAX_DIGITS = 32"

subsection \<open>Network byte order\<close>

definition htonl :: "32 word \<Rightarrow> byte list" where
  "htonl w = [ucast (drop_bit 24 w), ucast (drop_bit 16 w), ucast (drop_bit 8 w), ucast w]"

definition htonll :: "64 word \<Rightarrow> byte list" where
  "htonll w = [ucast (drop_bit 56 w), ucast (drop_bit 48 w), ucast (drop_bit 40 w),
               ucast (drop_bit 32 w), ucast (drop_bit 24 w), ucast (drop_bit 16 w),
               ucast (drop_bit 8 w), ucast w]"

text \<open>
  A store through \<^verbatim>\<open>paramValue\<close> overwrites the first bytes of the scratch buffer and leaves the
  rest of it as it was.
\<close>

definition poke :: "byte list \<Rightarrow> byte list \<Rightarrow> byte list" where
  "poke bs buf = bs @ drop (length bs) buf"

text \<open>\<^verbatim>\<open>snprintf(buf, size, "%s", s)\<close>: at most \<^verbatim>\<open>size - 1\<close> characters and a terminating NUL.\<close>

definition snprintf_s :: "nat \<Rightarrow> string \<Rightarrow> byte list \<Rightarrow> byte list" where
  "snprintf_s n s buf =
     (if n = 0 then buf else poke (map of_char (take (n - 1) s) @ [0]) buf)"

subsection \<open>The scalar encoders\<close>

text \<open>Each encoder returns the buffer as written and the size to put in \<^verbatim>\<open>paramLength\<close>.\<close>

definition psql_set_int8_value :: "8 word \<Rightarrow> byte list \<Rightarrow> byte list \<times> int" where
  "psql_set_int8_value val paramValue = (poke [val] paramValue, 1)"

definition psql_set_int32_value :: "32 word \<Rightarrow> byte list \<Rightarrow> byte list \<times> int" where
  "psql_set_int32_value val paramValue = (poke (htonl val) paramValue, 4)"

definition psql_set_int64_value :: "64 word \<Rightarrow> byte list \<Rightarrow> byte list \<times> int" where
  "psql_set_int64_value val paramValue = (poke (htonll val) paramValue, 8)"

definition psql_set_long_value :: "64 word \<Rightarrow> byte list \<Rightarrow> byte list \<times> int" where
  "psql_set_long_value val paramValue = psql_set_int32_value (ucast val) paramValue"

text \<open>\<^verbatim>\<open>sizeof(binval)\<close> is the size of a pointer, 8 on the LP64 host.\<close>

definition psql_set_double_value :: "64 word \<Rightarrow> byte list \<Rightarrow> byte list \<times> int" where
  "psql_set_double_value val paramValue = (poke (htonll val) paramValue, 8)"

definition psql_set_uint32_value :: "32 word \<Rightarrow> byte list \<Rightarrow> byte list \<times> int" where
  "psql_set_uint32_value val paramValue = psql_set_int64_value (ucast val) paramValue"

definition psql_set_uint64_value :: "64 word \<Rightarrow> byte list \<Rightarrow> byte list \<times> int" where
  "psql_set_uint64_value val paramValue = psql_set_int64_value val paramValue"

definition psql_set_guid_value :: "64 word \<Rightarrow> byte list \<Rightarrow> byte list \<times> int" where
  "psql_set_guid_value val paramValue = psql_set_uint64_value val paramValue"

definition psql_set_bool_value :: "8 word \<Rightarrow> byte list \<Rightarrow> byte list \<times> int" where
  "psql_set_bool_value val paramValue = psql_set_int8_value val paramValue"

section \<open>Inserting a row: \<^verbatim>\<open>psql_insert\<close>\<close>

text \<open>
  The three parallel arrays \<^verbatim>\<open>psqltable->values\<close>, \<^verbatim>\<open>paramLength\<close> and \<^verbatim>\<open>paramFormat\<close> are
  indexed by the same \<^verbatim>\<open>i\<close>; the model keeps them as one list of records. The two local arrays
  are not initialised by the C code, and every entry is assigned before \<^verbatim>\<open>PQexecPrepared\<close>
  reads it.
\<close>

record param =
  pvalue :: "byte list"
  paramLength :: int
  paramFormat :: int

datatype ExecStatusType =
    PGRES_EMPTY_QUERY
  | PGRES_COMMAND_OK
  | PGRES_TUPLES_OK
  | PGRES_BAD_RESPONSE
  | PGRES_NONFATAL_ERROR
  | PGRES_FATAL_ERROR

text \<open>
  What \<^verbatim>\<open>psql_insert\<close> gets from outside during one call: the clock, the answers of the
  database connection and of the allocator, and the helpers of other modules. The field
  \<open>time_stamp_server\<close> holds the bits of the double
  \<^verbatim>\<open>tv.tv_sec - db->start_time + 0.000001 * tv.tv_usec\<close>.

  Modelled from the spec: \<^verbatim>\<open>dba_reopen_transaction\<close> (in \<^verbatim>\<open>database_adapter.c\<close>, not among the
  sources) commits the running transaction and begins a new one, and returns \<^verbatim>\<open>-1\<close> when that
  fails; \<open>dba_reopen_transaction_ret\<close> is what it returns if \<^verbatim>\<open>psql_insert\<close> calls it.
\<close>

record insert_env =
  tv_sec :: int
  tv_usec :: int
  time_stamp_server :: "64 word"
  dba_reopen_transaction_ret :: int
  PQexecPrepared_status :: ExecStatusType
  oml_realloc_fails :: bool
  PQescapeByteaConn :: "byte list \<Rightarrow> nat \<Rightarrow> nat \<Rightarrow> string option \<times> nat"
  vector_to_json :: "OmlValueT \<Rightarrow> byte list \<Rightarrow> nat \<Rightarrow> string"

text \<open>How a block of the \<^verbatim>\<open>switch\<close> ends.\<close>

datatype flow = Break | Fallthrough | Return int | Undefined

datatype label = Case OmlValueT | Default

text \<open>
  A block works on the function-wide variable \<^verbatim>\<open>len\<close> and on the entries of the three arrays
  at the current index.
\<close>

type_synonym block = "insert_env \<Rightarrow> OmlValue \<Rightarrow> nat \<times> param \<Rightarrow> (nat \<times> param) \<times> flow"

text \<open>\<^verbatim>\<open>paramLength[i] = psql_set_..._value(val, psqltable->values[i]); paramFormat[i] = 1;\<close>\<close>

definition set_binary :: "(byte list \<Rightarrow> byte list \<times> int) \<Rightarrow> param \<Rightarrow> param" where
  "set_binary enc p =
     (case enc (pvalue p) of (buf, n) \<Rightarrow> p\<lparr>pvalue := buf, paramLength := n, paramFormat := 1\<rparr>)"

text \<open>
  The first block of the \<^verbatim>\<open>switch\<close> body (lines 771 to 776) stands before any \<^verbatim>\<open>case\<close> label.
\<close>

definition block_long :: block where
  "block_long env v st =
     (case st of (len, p) \<Rightarrow>
        ((len, set_binary (psql_set_long_value (longValue (oml_value_get_value v))) p), Break))"

definition block_int32 :: block where
  "block_int32 env v st =
     (case st of (len, p) \<Rightarrow>
        ((len, set_binary (psql_set_int32_value (int32Value (oml_value_get_value v))) p), Break))"

definition block_uint32 :: block where
  "block_uint32 env v st =
     (case st of (len, p) \<Rightarrow>
        ((len, set_binary (psql_set_uint32_value (uint32Value (oml_value_get_value v))) p),
         Fallthrough))"

definition block_int64 :: block where
  "block_int64 env v st =
     (case st of (len, p) \<Rightarrow>
        ((len, set_binary (psql_set_int64_value (int64Value (oml_value_get_value v))) p), Break))"

definition block_uint64 :: block where
  "block_uint64 env v st =
     (case st of (len, p) \<Rightarrow>
        ((len, set_binary (psql_set_uint64_value (uint64Value (oml_value_get_value v))) p),
         Fallthrough))"

definition block_double :: block where
  "block_double env v st =
     (case st of (len, p) \<Rightarrow>
        ((len, set_binary (psql_set_double_value (doubleValue (oml_value_get_value v))) p),
         Break))"

definition block_guid :: block where
  "block_guid env v st =
     (case st of (len, p) \<Rightarrow>
        ((len, set_binary (psql_set_int64_value (guidValue (oml_value_get_value v))) p), Break))"

definition block_bool :: block where
  "block_bool env v st =
     (case st of (len, p) \<Rightarrow>
        let p1 = p\<lparr>pvalue := snprintf_s MAX_DIGITS
                     (if boolValue (ovalue v) \<noteq> 0 then ''1'' else ''0'') (pvalue p)\<rparr>
        in ((len, set_binary (psql_set_bool_value (boolValue (oml_value_get_value v))) p1),
            Break))"

definition block_string :: block where
  "block_string env v st =
     (case st of (len0, p) \<Rightarrow>
        let len = stringValue_length (oml_value_get_value v) + 1
        in if len > MAX_DIGITS \<and> oml_realloc_fails env then ((len, p), Return (- 1))
           else (case stringValue_ptr (oml_value_get_value v) of
                   None \<Rightarrow> ((len, p), Undefined)
                 | Some s \<Rightarrow> ((len, p\<lparr>pvalue := snprintf_s len s (pvalue p)\<rparr>), Break)))"

definition block_blob :: block where
  "block_blob env v st =
     (case st of (len0, p) \<Rightarrow>
        (case PQescapeByteaConn env (blobValue_ptr (ovalue v)) (blobValue_length (ovalue v)) len0
         of (escaped_blob, len) \<Rightarrow>
           if len > MAX_DIGITS \<and> oml_realloc_fails env then ((len, p), Return (- 1))
           else (case escaped_blob of
                   None \<Rightarrow> ((len, p), Undefined)
                 | Some s \<Rightarrow> ((len, p\<lparr>pvalue := snprintf_s len s (pvalue p)\<rparr>), Break))))"

definition block_vector :: "OmlValueT \<Rightarrow> block" where
  "block_vector t env v st =
     (case st of (len, p) \<Rightarrow>
        let json = vector_to_json env t (vectorValue_ptr (ovalue v))
                     (vectorValue_nof_elts (ovalue v))
        in ((len, p\<lparr>pvalue := poke (map of_char json @ [0]) (pvalue p)\<rparr>), Break))"

definition block_default :: block where
  "block_default env v st = (st, Return (- 1))"

text \<open>The blocks of the \<^verbatim>\<open>switch\<close> in the order of the source, each with its labels.\<close>

definition switch_blocks :: "(label list \<times> block) list" where
  "switch_blocks =
     [([], block_long),
      ([Case OML_INT32_VALUE], block_int32),
      ([Case OML_UINT32_VALUE], block_uint32),
      ([Case OML_INT64_VALUE], block_int64),
      ([Case OML_UINT64_VALUE], block_uint64),
      ([Case OML_DOUBLE_VALUE], block_double),
      ([Case OML_GUID_VALUE], block_guid),
      ([Case OML_BOOL_VALUE], block_bool),
      ([Case OML_STRING_VALUE], block_string),
      ([Case OML_BLOB_VALUE], block_blob),
      ([Case OML_VECTOR_DOUBLE_VALUE], block_vector OML_VECTOR_DOUBLE_VALUE),
      ([Case OML_VECTOR_INT32_VALUE], block_vector OML_VECTOR_INT32_VALUE),
      ([Case OML_VECTOR_UINT32_VALUE], block_vector OML_VECTOR_UINT32_VALUE),
      ([Case OML_VECTOR_INT64_VALUE], block_vector OML_VECTOR_INT64_VALUE),
      ([Case OML_VECTOR_UINT64_VALUE], block_vector OML_VECTOR_UINT64_VALUE),
      ([Case OML_VECTOR_BOOL_VALUE], block_vector OML_VECTOR_BOOL_VALUE),
      ([Default], block_default)]"

text \<open>
  The C \<^verbatim>\<open>switch\<close>: control enters at the block that carries the matching \<^verbatim>\<open>case\<close> label, or at
  \<^verbatim>\<open>default\<close> when no label matches, and runs the blocks that follow until one ends in
  \<^verbatim>\<open>break\<close> or \<^verbatim>\<open>return\<close>.
\<close>

fun run_blocks ::
  "(label list \<times> block) list \<Rightarrow> insert_env \<Rightarrow> OmlValue \<Rightarrow> nat \<times> param \<Rightarrow> (nat \<times> param) \<times> flow"
where
  "run_blocks [] env v st = (st, Break)"
| "run_blocks (lb # bs) env v st =
     (case snd lb env v st of
        (st', Fallthrough) \<Rightarrow> run_blocks bs env v st'
      | r \<Rightarrow> r)"

definition entry :: "label \<Rightarrow> (label list \<times> block) list \<Rightarrow> (label list \<times> block) list" where
  "entry l bs = dropWhile (\<lambda>lb. l \<notin> set (fst lb)) bs"

definition c_switch ::
  "OmlValueT \<Rightarrow> (label list \<times> block) list \<Rightarrow> insert_env \<Rightarrow> OmlValue \<Rightarrow> nat \<times> param
     \<Rightarrow> (nat \<times> param) \<times> flow"
where
  "c_switch t bs env v st =
     (if Case t \<in> set (concat (map fst bs)) then run_blocks (entry (Case t) bs) env v st
      else run_blocks (entry Default bs) env v st)"

subsection \<open>The database and table handles\<close>

text \<open>
  \<^verbatim>\<open>psqltable->value_count\<close> is the length of \<^verbatim>\<open>psqltable->values\<close> (\<^verbatim>\<open>psql_table_create\<close> sets the
  two together); the connection \<^verbatim>\<open>psqldb->conn\<close> is represented by its answers in \<open>insert_env\<close>
  and by the calls made to it.
\<close>

record PsqlDB =
  last_commit :: int

record Database =
  dname :: string
  start_time :: int
  handle :: PsqlDB

record PsqlTable =
  insert_stmt :: string
  pvalues :: "byte list list"

record DbTable =
  tschema :: schema
  thandle :: PsqlTable

datatype pq_call =
    Dba_reopen_transaction
  | PQexecPrepared string nat "byte list list" "int list" "int list"

datatype insert_abort = Assertion_failed | Undefined_behaviour

record insert_result =
  ret :: int
  db_after :: Database
  table_after :: DbTable
  calls :: "pq_call list"

datatype loop_exit = Loop_done | Loop_return int | Loop_undefined

text \<open>
  The \<^verbatim>\<open>for\<close> loop over the payload, lines 760 to 899; \<open>i\<close> is the parameter index and the list
  holds the values from \<^verbatim>\<open>v\<close> on. Reading \<^verbatim>\<open>fields[i-NMETA]\<close> beyond the schema is undefined.
\<close>

fun encode_values ::
  "insert_env \<Rightarrow> schema_field list \<Rightarrow> nat \<Rightarrow> OmlValue list \<Rightarrow> nat \<times> param list
     \<Rightarrow> (nat \<times> param list) \<times> loop_exit"
where
  "encode_values env fs i [] st = (st, Loop_done)"
| "encode_values env fs i (v # vs) st =
     (case st of (len, ps) \<Rightarrow>
        if length fs \<le> i - NMETA \<or> length ps \<le> i then (st, Loop_undefined)
        else
          let field = fs ! (i - NMETA) in
          if oml_value_get_type v \<noteq> ftype field then (st, Loop_return (- 1))
          else
            (case c_switch (ftype field) switch_blocks env v
                    (len, (ps ! i)\<lparr>paramLength := 0, paramFormat := 0\<rparr>)
             of ((len', p'), Return r) \<Rightarrow> ((len', ps[i := p']), Loop_return r)
              | ((len', p'), Undefined) \<Rightarrow> ((len', ps[i := p']), Loop_undefined)
              | ((len', p'), _) \<Rightarrow> encode_values env fs (Suc i) vs (len', ps[i := p'])))"

definition with_values :: "DbTable \<Rightarrow> param list \<Rightarrow> DbTable" where
  "with_values table ps = table\<lparr>thandle := (thandle table)\<lparr>pvalues := map pvalue ps\<rparr>\<rparr>"

text \<open>The local arrays beside the scratch buffers, at the start of the call.\<close>

definition init_params :: "byte list list \<Rightarrow> param list" where
  "init_params bufs = map (\<lambda>b. \<lparr>pvalue = b, paramLength = 0, paramFormat = 0\<rparr>) bufs"

text \<open>The three assignments for a metadata column \<open>i\<close>.\<close>

definition bind_param :: "nat \<Rightarrow> (byte list \<Rightarrow> byte list \<times> int) \<Rightarrow> param list \<Rightarrow> param list" where
  "bind_param i enc ps = ps[i := set_binary enc (ps ! i)]"

text \<open>
  \<^verbatim>\<open>psql_insert\<close>. \<^verbatim>\<open>value_count\<close> is the length of \<^verbatim>\<open>values\<close>; \<^verbatim>\<open>sender_id\<close> and \<^verbatim>\<open>seq_no\<close> are C
  \<^verbatim>\<open>int\<close>s, \<^verbatim>\<open>time_stamp\<close> is the bits of a double. Calls to the logger are left out.
\<close>

definition psql_insert ::
  "insert_env \<Rightarrow> Database \<Rightarrow> DbTable \<Rightarrow> 32 word \<Rightarrow> 32 word \<Rightarrow> 64 word \<Rightarrow> OmlValue list
     \<Rightarrow> insert_abort + insert_result"
where
  "psql_insert env db table sender_id seq_no time_stamp values =
     (let psqldb = handle db;
          psqltable = thandle table;
          value_count = length values
      in
      if NMETA + value_count \<noteq> length (pvalues psqltable) then Inl Assertion_failed
      else
        let ps = init_params (pvalues psqltable);
            ps = bind_param 0 (psql_set_int32_value sender_id) ps;
            ps = bind_param 1 (psql_set_int32_value seq_no) ps;
            ps = bind_param 2 (psql_set_double_value time_stamp) ps
        in
        if tv_sec env > last_commit psqldb \<and> dba_reopen_transaction_ret env = - 1
        then Inr \<lparr>ret = - 1, db_after = db, table_after = with_values table ps,
                  calls = [Dba_reopen_transaction]\<rparr>
        else
          let reopened = (tv_sec env > last_commit psqldb);
              db' = (if reopened then db\<lparr>handle := psqldb\<lparr>last_commit := tv_sec env\<rparr>\<rparr> else db);
              cs = (if reopened then [Dba_reopen_transaction] else []);
              ps = bind_param 3 (psql_set_double_value (time_stamp_server env)) ps
          in
          (case encode_values env (sfields (tschema table)) NMETA values (MAX_DIGITS, ps) of
             ((len, ps'), Loop_undefined) \<Rightarrow> Inl Undefined_behaviour
           | ((len, ps'), Loop_return r) \<Rightarrow>
               Inr \<lparr>ret = r, db_after = db', table_after = with_values table ps', calls = cs\<rparr>
           | ((len, ps'), Loop_done) \<Rightarrow>
               Inr \<lparr>ret = (if PQexecPrepared_status env \<noteq> PGRES_COMMAND_OK then - 1 else 0),
                    db_after = db', table_after = with_values table ps',
                    calls = cs @ [PQexecPrepared (insert_stmt psqltable) (NMETA + value_count)
                                    (map pvalue ps') (map paramLength ps')
                                    (map paramFormat ps')]\<rparr>))"

text \<open>Whether the prepared statement was executed during a call.\<close>

fun is_exec :: "pq_call \<Rightarrow> bool" where
  "is_exec (PQexecPrepared s n b l f) = True"
| "is_exec Dba_reopen_transaction = False"

definition executed :: "insert_result \<Rightarrow> bool" where
  "executed r = list_ex is_exec (calls r)"


text \<open>The parameters once the four metadata columns are bound.\<close>

definition meta_bound :: "insert_env \<Rightarrow> DbTable \<Rightarrow> 32 word \<Rightarrow> 32 word \<Rightarrow> 64 word \<Rightarrow> param list" where
  "meta_bound env table sender_id seq_no time_stamp =
     bind_param 3 (psql_set_double_value (time_stamp_server env))
       (bind_param 2 (psql_set_double_value time_stamp)
         (bind_param 1 (psql_set_int32_value seq_no)
           (bind_param 0 (psql_set_int32_value sender_id)
             (init_params (pvalues (thandle table))))))"

subsection \<open>Concrete rows\<close>

text \<open>
  A one-column table with its scratch buffers as \<^verbatim>\<open>psql_table_create\<close> leaves them (zeroed,
  4 or 8 bytes for the metadata columns, 8 for the payload column), a clock reading of 100 s
  against a last commit at 99 s or at 100 s, and some values.
\<close>

definition ex_env :: insert_env where
  "ex_env = \<lparr>tv_sec = 100, tv_usec = 0, time_stamp_server = 0, dba_reopen_transaction_ret = 0,
     PQexecPrepared_status = PGRES_COMMAND_OK, oml_realloc_fails = False,
     PQescapeByteaConn = (\<lambda>p n l. (None, l)), vector_to_json = (\<lambda>t p n. ''[]'')\<rparr>"

definition ex_union :: OmlValueU where
  "ex_union = \<lparr>longValue = 0, doubleValue = 0, int32Value = 0, uint32Value = 0, int64Value = 0,
     uint64Value = 0, guidValue = 0, boolValue = 0, stringValue_ptr = None,
     stringValue_length = 0, blobValue_ptr = [], blobValue_length = 0, vectorValue_ptr = [],
     vectorValue_nof_elts = 0\<rparr>"

definition ex_db :: "int \<Rightarrow> Database" where
  "ex_db t = \<lparr>dname = ''exp'', start_time = 0, handle = \<lparr>last_commit = t\<rparr>\<rparr>"

definition ex_table :: "OmlValueT \<Rightarrow> DbTable" where
  "ex_table t = \<lparr>tschema = \<lparr>sname = ''t'', sfields = [\<lparr>fname = ''x'', ftype = t\<rparr>]\<rparr>,
     thandle = \<lparr>insert_stmt = ''OMLInsert-t'',
       pvalues = [[0, 0, 0, 0], [0, 0, 0, 0], [0, 0, 0, 0, 0, 0, 0, 0],
                  [0, 0, 0, 0, 0, 0, 0, 0], [0, 0, 0, 0, 0, 0, 0, 0]]\<rparr>\<rparr>"

text \<open>A \<^verbatim>\<open>long\<close> of value 5.\<close>

definition ex_long :: OmlValue where
  "ex_long = \<lparr>otype = OML_LONG_VALUE, ovalue = ex_union\<lparr>longValue := 5, int32Value := 5\<rparr>\<rparr>"

text \<open>
  A \<^verbatim>\<open>uint32\<close> of value 5 in a union whose bytes 4 to 7 still hold \<^verbatim>\<open>FF\<close> from an earlier use:
  on a little-endian host the 64-bit members then read \<^verbatim>\<open>0xFFFFFFFF00000005\<close>.
\<close>

definition ex_uint32 :: OmlValue where
  "ex_uint32 = \<lparr>otype = OML_UINT32_VALUE,
      ovalue = ex_union\<lparr>longValue := 0xFFFFFFFF00000005, doubleValue := 0xFFFFFFFF00000005,
        int32Value := 5, uint32Value := 5, int64Value := 0xFFFFFFFF00000005,
        uint64Value := 0xFFFFFFFF00000005, guidValue := 0xFFFFFFFF00000005, boolValue := 5\<rparr>\<rparr>"

definition ex_int32 :: OmlValue where
  "ex_int32 = \<lparr>otype = OML_INT32_VALUE, ovalue = ex_union\<lparr>int32Value := 5\<rparr>\<rparr>"

definition ex_int64 :: OmlValue where
  "ex_int64 = \<lparr>otype = OML_INT64_VALUE, ovalue = ex_union\<lparr>int64Value := 5\<rparr>\<rparr>"


section \<open>The zlib helpers: \<^verbatim>\<open>oml_zlib_inf\<close> and \<^verbatim>\<open>oml_zlib_def\<close>\<close>

text \<open>
  Source: \<^verbatim>\<open>src/lib/shared/zlib_utils.c\<close>. zlib and the C streams are outside the repository;
  the model takes them as they present themselves to the caller. The return codes are those
  of \<^verbatim>\<open>zlib.h\<close>.
\<close>

definition Z_OK :: int where "Z_OK = 0"
definition Z_STREAM_END :: int where "Z_STREAM_END = 1"
definition Z_NEED_DICT :: int where "Z_NEED_DICT = 2"
definition Z_ERRNO :: int where "Z_ERRNO = - 1"
definition Z_STREAM_ERROR :: int where "Z_STREAM_ERROR = - 2"
definition Z_DATA_ERROR :: int where "Z_DATA_ERROR = - 3"
definition Z_MEM_ERROR :: int where "Z_MEM_ERROR = - 4"
definition Z_BUF_ERROR :: int where "Z_BUF_ERROR = - 5"
definition Z_NO_FLUSH :: int where "Z_NO_FLUSH = 0"
definition Z_FINISH :: int where "Z_FINISH = 4"

text \<open>
  The fields of \<^verbatim>\<open>z_stream\<close> that the helper touches. \<open>next_in\<close> holds the bytes at the input
  pointer, \<open>out\<close> the bytes that the library has put into the array \<^verbatim>\<open>out\<close> since \<^verbatim>\<open>next_out\<close>
  was last set to its start, and \<open>internal\<close> the library's own state.
\<close>

record 'z z_stream =
  avail_in :: nat
  next_in :: "byte list"
  avail_out :: nat
  out :: "byte list"
  internal :: 'z

text \<open>
  The library and the two constants of \<^verbatim>\<open>zlib_utils.h\<close> (not among the sources):
  \<^verbatim>\<open>OML_ZLIB_CHUNKSIZE\<close> and \<^verbatim>\<open>OML_ZLIB_WINDOWBITS\<close>. \<open>inflateInit2\<close> gives its return code and
  the state of the fresh stream; \<open>inflate\<close> and \<open>inflateSync\<close> give their return code and
  the stream as they leave it. \<open>deflateInit2\<close> takes the level and the window bits (its other
  arguments are constants), \<open>deflate\<close> the stream and the flush mode.
\<close>

record 'z zlib =
  OML_ZLIB_CHUNKSIZE :: nat
  OML_ZLIB_WINDOWBITS :: int
  inflateInit2 :: "int \<Rightarrow> int \<times> 'z"
  inflate :: "'z z_stream \<Rightarrow> int \<Rightarrow> int \<times> 'z z_stream"
  inflateSync :: "'z z_stream \<Rightarrow> int \<times> 'z z_stream"
  deflateInit2 :: "int \<Rightarrow> int \<Rightarrow> int \<times> 'z"
  deflate :: "'z z_stream \<Rightarrow> int \<Rightarrow> int \<times> 'z z_stream"

text \<open>
  A stream open for reading: the bytes not yet read, and after how many further calls of
  \<^verbatim>\<open>fread\<close> the error indicator comes up (never, for \<open>None\<close>).
\<close>

record rfile =
  unread :: "byte list"
  rerror_after :: "nat option"

text \<open>\<^verbatim>\<open>fread(in, 1, n, source)\<close> followed by \<^verbatim>\<open>ferror(source)\<close>: the bytes read, the indicator, the stream.\<close>

definition fread :: "nat \<Rightarrow> rfile \<Rightarrow> byte list \<times> bool \<times> rfile" where
  "fread n f =
     (case rerror_after f of
        Some 0 \<Rightarrow> ([], True, f)
      | Some (Suc k) \<Rightarrow> (take n (unread f), False,
                         f\<lparr>unread := drop n (unread f), rerror_after := Some k\<rparr>)
      | None \<Rightarrow> (take n (unread f), False, f\<lparr>unread := drop n (unread f)\<rparr>))"

text \<open>
  \<^verbatim>\<open>feof(source)\<close> after \<^verbatim>\<open>fread(in, 1, n, source)\<close>, told from the stream before the read: the
  indicator is set when the read met the end of the file, that is when fewer than \<open>n\<close> bytes
  were left.
\<close>

definition feof_after_fread :: "nat \<Rightarrow> rfile \<Rightarrow> bool" where
  "feof_after_fread n f = (length (unread f) < n)"

text \<open>A stream open for writing: the bytes written, and when a write fails.\<close>

record wfile =
  written :: "byte list"
  werror_after :: "nat option"

text \<open>\<^verbatim>\<open>fwrite(out, 1, have, dest) != have || ferror(dest)\<close>: whether the write failed, the stream.\<close>

definition fwrite :: "byte list \<Rightarrow> wfile \<Rightarrow> bool \<times> wfile" where
  "fwrite bs f =
     (case werror_after f of
        Some 0 \<Rightarrow> (True, f)
      | Some (Suc k) \<Rightarrow> (False, f\<lparr>written := written f @ bs, werror_after := Some k\<rparr>)
      | None \<Rightarrow> (False, f\<lparr>written := written f @ bs\<rparr>))"

text \<open>
  The variables of \<^verbatim>\<open>oml_zlib_inf\<close>, with the list of the codes that \<^verbatim>\<open>inflate\<close> has returned so
  far, oldest first.
\<close>

record 'z inf_state =
  strm :: "'z z_stream"
  iret :: int
  resynced :: nat
  source :: rfile
  dest :: wfile
  inflate_codes :: "int list"

text \<open>How the function was left: by a \<^verbatim>\<open>return\<close> inside the loops, or through the end of the outer loop.\<close>

datatype exit_kind = Early_return | Loop_left

record 'z inf_result =
  zret :: int
  zexit :: exit_kind
  final :: "'z inf_state"

datatype loop_point = Outer_body | Inner_body

text \<open>The \<^verbatim>\<open>switch (ret)\<close> of lines 174 to 192; \<open>Inl\<close> is the \<^verbatim>\<open>return ret\<close> of \<^verbatim>\<open>Z_MEM_ERROR\<close>.\<close>

definition inf_switch :: "'z zlib \<Rightarrow> 'z inf_state \<Rightarrow> int + 'z inf_state" where
  "inf_switch z s =
     (if iret s = Z_NEED_DICT \<or> iret s = Z_DATA_ERROR then
        let s = (if iret s = Z_NEED_DICT then s\<lparr>iret := Z_DATA_ERROR\<rparr> else s) in
        if resynced s = 1 then Inr (s\<lparr>resynced := 2\<rparr>)
        else (case inflateSync z (strm s) of
                (r, st) \<Rightarrow> if r = Z_OK then Inr (s\<lparr>strm := st, resynced := 1\<rparr>)
                           else Inr (s\<lparr>strm := st\<rparr>))
      else if iret s = Z_MEM_ERROR then Inl (iret s)
      else Inr s)"

text \<open>
  The two nested \<^verbatim>\<open>do ... while\<close> loops, lines 149 to 205, one turn at a time. A turn either
  leaves the function (\<open>Inl\<close>) or goes on at the start of one of the two loop bodies.

  The outer body up to the start of the inner loop, lines 151 to 159.
\<close>

definition outer_body ::
  "'z zlib \<Rightarrow> 'z inf_state \<Rightarrow> 'z inf_result + loop_point \<times> 'z inf_state"
where
  "outer_body z s =
     (case fread (OML_ZLIB_CHUNKSIZE z) (source s) of
        (bs, err, src) \<Rightarrow>
          let s = s\<lparr>strm := (strm s)\<lparr>avail_in := length bs\<rparr>, source := src\<rparr> in
          if err then Inl \<lparr>zret = Z_ERRNO, zexit = Early_return, final = s\<rparr>
          else if avail_in (strm s) = 0
          then Inl \<lparr>zret = (if iret s = Z_STREAM_END then Z_OK else Z_DATA_ERROR),
                    zexit = Loop_left, final = s\<rparr>
          else Inr (Inner_body, s\<lparr>strm := (strm s)\<lparr>next_in := bs\<rparr>\<rparr>))"

text \<open>
  The inner body with the two loop conditions that follow it, lines 164 to 205, and the
  \<^verbatim>\<open>return\<close> of line 210 when both loops are left.
\<close>

definition inner_body ::
  "'z zlib \<Rightarrow> 'z inf_state \<Rightarrow> 'z inf_result + loop_point \<times> 'z inf_state"
where
  "inner_body z s =
     (let s = (if resynced s = 0
               then s\<lparr>strm := (strm s)\<lparr>avail_out := OML_ZLIB_CHUNKSIZE z, out := []\<rparr>\<rparr>
               else s)
      in case inflate z (strm s) Z_NO_FLUSH of
           (r, st) \<Rightarrow>
             let s = s\<lparr>strm := st, iret := r, inflate_codes := inflate_codes s @ [r]\<rparr> in
             if iret s = Z_STREAM_ERROR
             then Inl \<lparr>zret = Z_STREAM_ERROR, zexit = Early_return, final = s\<rparr>
             else
               (case inf_switch z s of
                  Inl r' \<Rightarrow> Inl \<lparr>zret = r', zexit = Early_return, final = s\<rparr>
                | Inr s \<Rightarrow>
                    let have = OML_ZLIB_CHUNKSIZE z - avail_out (strm s) in
                    (case fwrite (take have (out (strm s))) (dest s) of
                       (failed, d) \<Rightarrow>
                         if failed
                         then Inl \<lparr>zret = Z_ERRNO, zexit = Early_return, final = s\<rparr>
                         else
                           let s = s\<lparr>dest := d\<rparr>;
                               s = (if have > 0 then s\<lparr>resynced := 0\<rparr> else s)
                           in
                           if avail_out (strm s) = 0 \<or> resynced s \<noteq> 0
                           then Inr (Inner_body, s)
                           else if iret s \<noteq> Z_STREAM_END then Inr (Outer_body, s)
                           else Inl \<lparr>zret = (if iret s = Z_STREAM_END then Z_OK
                                              else Z_DATA_ERROR),
                                     zexit = Loop_left, final = s\<rparr>)))"

text \<open>
  Nothing in the helper bounds the number of turns of the inner loop, so the loops are a
  partial function: \<open>None\<close> stands for a run that never leaves them.
\<close>

partial_function (option) inf_loops ::
  "'z zlib \<Rightarrow> loop_point \<Rightarrow> 'z inf_state \<Rightarrow> 'z inf_result option"
where
  "inf_loops z pt s =
     (case (case pt of Outer_body \<Rightarrow> outer_body z s | Inner_body \<Rightarrow> inner_body z s) of
        Inl r \<Rightarrow> Some r
      | Inr (pt', s') \<Rightarrow> inf_loops z pt' s')"

declare inf_loops.simps [code]

text \<open>\<^verbatim>\<open>oml_zlib_inf\<close>: the initialisation of lines 137 to 146, then the loops.\<close>

definition oml_zlib_inf :: "'z zlib \<Rightarrow> rfile \<Rightarrow> wfile \<Rightarrow> 'z inf_result option" where
  "oml_zlib_inf z src dst =
     (case inflateInit2 z (OML_ZLIB_WINDOWBITS z) of
        (r, st) \<Rightarrow>
          let s = \<lparr>strm = \<lparr>avail_in = 0, next_in = [], avail_out = 0, out = [], internal = st\<rparr>,
                   iret = r, resynced = 0, source = src, dest = dst, inflate_codes = []\<rparr>
          in if r \<noteq> Z_OK then Some \<lparr>zret = r, zexit = Early_return, final = s\<rparr>
             else inf_loops z Outer_body s)"


text \<open>Whether the last call of \<^verbatim>\<open>inflate\<close> reported the end of the stream.\<close>

definition stream_ended :: "'z inf_state \<Rightarrow> bool" where
  "stream_ended s = (inflate_codes s \<noteq> [] \<and> last (inflate_codes s) = Z_STREAM_END)"

text \<open>What holds between the variable \<^verbatim>\<open>ret\<close> and the codes of \<^verbatim>\<open>inflate\<close> at the loop heads.\<close>

definition ret_tracks :: "'z inf_state \<Rightarrow> bool" where
  "ret_tracks s = (iret s = Z_STREAM_END \<longleftrightarrow> stream_ended s)"

text \<open>What a finished run satisfies.\<close>

definition inf_post :: "'z inf_result \<Rightarrow> bool" where
  "inf_post r =
     ((zexit r = Early_return \<longrightarrow> zret r \<in> {Z_ERRNO, Z_STREAM_ERROR, Z_MEM_ERROR})
      \<and> (zexit r = Loop_left \<longrightarrow>
           zret r = (if stream_ended (final r) then Z_OK else Z_DATA_ERROR)))"

subsection \<open>\<^verbatim>\<open>oml_zlib_def\<close>\<close>

record 'z def_state =
  dstrm :: "'z z_stream"
  dret :: int
  dflush :: int
  dsource :: rfile
  ddest :: wfile

record 'z def_result =
  def_ret :: int
  def_final :: "'z def_state"

text \<open>The outer body up to the start of the inner loop, lines 68 to 74.\<close>

definition def_outer_body ::
  "'z zlib \<Rightarrow> 'z def_state \<Rightarrow> 'z def_result + loop_point \<times> 'z def_state"
where
  "def_outer_body z s =
     (case fread (OML_ZLIB_CHUNKSIZE z) (dsource s) of
        (bs, err, src) \<Rightarrow>
          let eof = feof_after_fread (OML_ZLIB_CHUNKSIZE z) (dsource s);
              s = s\<lparr>dstrm := (dstrm s)\<lparr>avail_in := length bs\<rparr>, dsource := src\<rparr>
          in if err then Inl \<lparr>def_ret = Z_ERRNO, def_final = s\<rparr>
             else
               let s = s\<lparr>dflush := (if eof then Z_FINISH else Z_NO_FLUSH)\<rparr>;
                   s = s\<lparr>dstrm := (dstrm s)\<lparr>next_in := bs\<rparr>\<rparr>
               in Inr (Inner_body, s))"

text \<open>
  The inner body with the two loop conditions that follow it, lines 80 to 103, and the end of
  the function, lines 104 to 111.
\<close>

definition def_inner_body ::
  "'z zlib \<Rightarrow> 'z def_state \<Rightarrow> 'z def_result + loop_point \<times> 'z def_state"
where
  "def_inner_body z s =
     (let s = s\<lparr>dstrm := (dstrm s)\<lparr>avail_out := OML_ZLIB_CHUNKSIZE z, out := []\<rparr>\<rparr> in
      case deflate z (dstrm s) (dflush s) of
        (r, st) \<Rightarrow>
          let s = s\<lparr>dstrm := st, dret := r\<rparr> in
          if dret s = Z_STREAM_ERROR then Inl \<lparr>def_ret = dret s, def_final = s\<rparr>
          else
            let have = OML_ZLIB_CHUNKSIZE z - avail_out (dstrm s) in
            (case fwrite (take have (out (dstrm s))) (ddest s) of
               (failed, d) \<Rightarrow>
                 if failed then Inl \<lparr>def_ret = Z_ERRNO, def_final = s\<rparr>
                 else
                   let s = s\<lparr>ddest := d\<rparr> in
                   if avail_out (dstrm s) = 0 then Inr (Inner_body, s)
                   else if avail_in (dstrm s) \<noteq> 0
                   then Inl \<lparr>def_ret = Z_STREAM_ERROR, def_final = s\<rparr>
                   else if dflush s \<noteq> Z_FINISH then Inr (Outer_body, s)
                   else if dret s \<noteq> Z_STREAM_END
                   then Inl \<lparr>def_ret = Z_STREAM_ERROR, def_final = s\<rparr>
                   else Inl \<lparr>def_ret = Z_OK, def_final = s\<rparr>))"

partial_function (option) def_loops ::
  "'z zlib \<Rightarrow> loop_point \<Rightarrow> 'z def_state \<Rightarrow> 'z def_result option"
where
  "def_loops z pt s =
     (case (case pt of Outer_body \<Rightarrow> def_outer_body z s | Inner_body \<Rightarrow> def_inner_body z s) of
        Inl r \<Rightarrow> Some r
      | Inr (pt', s') \<Rightarrow> def_loops z pt' s')"

declare def_loops.simps [code]

text \<open>\<^verbatim>\<open>oml_zlib_def\<close>: the initialisation of lines 56 to 63, then the loops.\<close>

definition oml_zlib_def :: "'z zlib \<Rightarrow> rfile \<Rightarrow> wfile \<Rightarrow> int \<Rightarrow> 'z def_result option" where
  "oml_zlib_def z src dst level =
     (case deflateInit2 z level (OML_ZLIB_WINDOWBITS z) of
        (r, st) \<Rightarrow>
          let s = \<lparr>dstrm = \<lparr>avail_in = 0, next_in = [], avail_out = 0, out = [], internal = st\<rparr>,
                   dret = r, dflush = Z_NO_FLUSH, dsource = src, ddest = dst\<rparr>
          in if r \<noteq> Z_OK then Some \<lparr>def_ret = r, def_final = s\<rparr>
             else def_loops z Outer_body s)"

subsection \<open>What the helpers rely on\<close>

text \<open>
  The two helpers are right only if the library is. What they rely on is written down here
  from the description of \<^verbatim>\<open>deflate\<close> and \<^verbatim>\<open>inflate\<close> in \<^verbatim>\<open>zlib.h\<close>, in terms of a few views of
  the library's state: the input it has taken and the output it has given since the stream
  was set up, whether the stream is finished, which states a deflating stream and which an
  inflating stream (of a given compressed text) can be in, a bound on the number of further
  calls that fill the output space completely, and which compressed texts stand for which
  data.
\<close>

record 'z zlib_views =
  codec :: "byte list \<Rightarrow> byte list \<Rightarrow> bool"
  taken :: "'z \<Rightarrow> byte list"
  given :: "'z \<Rightarrow> byte list"
  finished :: "'z \<Rightarrow> bool"
  deflating :: "'z \<Rightarrow> bool"
  inflating :: "byte list \<Rightarrow> byte list \<Rightarrow> 'z \<Rightarrow> bool"
  backlog :: "'z \<Rightarrow> byte list \<Rightarrow> int \<Rightarrow> nat"

text \<open>
  A call takes some first part of the input offered and puts no more output than there is
  room for; the counters and pointers of the stream move accordingly.
\<close>

definition exchanged :: "'z zlib_views \<Rightarrow> 'z z_stream \<Rightarrow> 'z z_stream \<Rightarrow> bool" where
  "exchanged g st st' =
     (\<exists>k p. k \<le> length (next_in st) \<and> next_in st' = drop k (next_in st)
        \<and> avail_in st' = length (next_in st')
        \<and> taken g (internal st') = taken g (internal st) @ take k (next_in st)
        \<and> length p \<le> avail_out st \<and> out st' = out st @ p
        \<and> avail_out st' = avail_out st - length p
        \<and> given g (internal st') = given g (internal st) @ p)"

text \<open>
  \<^verbatim>\<open>deflate\<close>, on a stream that is not finished, with room for output: it never reports
  \<^verbatim>\<open>Z_STREAM_ERROR\<close>; if it leaves room, it has taken all the input; it reports \<^verbatim>\<open>Z_STREAM_END\<close>
  exactly when it finishes the stream, which it does only under \<^verbatim>\<open>Z_FINISH\<close> with all input
  taken, and then the output given is a compressed text of the input taken; under \<^verbatim>\<open>Z_FINISH\<close>
  it finishes as soon as it leaves room; and a call that fills the room lowers the backlog.
  On a finished stream, \<^verbatim>\<open>Z_FINISH\<close> without input reports \<^verbatim>\<open>Z_STREAM_END\<close> again and changes
  nothing.
\<close>

definition deflate_contract :: "'z zlib \<Rightarrow> 'z zlib_views \<Rightarrow> bool" where
  "deflate_contract z g =
     ((\<forall>st f r st'.
         deflating g (internal st) \<and> \<not> finished g (internal st)
         \<and> avail_in st = length (next_in st) \<and> avail_out st > 0
         \<and> (f = Z_NO_FLUSH \<or> f = Z_FINISH) \<and> deflate z st f = (r, st') \<longrightarrow>
           exchanged g st st' \<and> deflating g (internal st') \<and> r \<noteq> Z_STREAM_ERROR
           \<and> (avail_out st' \<noteq> 0 \<longrightarrow> avail_in st' = 0)
           \<and> (finished g (internal st') \<longleftrightarrow> r = Z_STREAM_END)
           \<and> (r = Z_STREAM_END \<longrightarrow>
                f = Z_FINISH \<and> avail_in st' = 0
                \<and> codec g (taken g (internal st')) (given g (internal st')))
           \<and> (f = Z_FINISH \<and> avail_out st' \<noteq> 0 \<longrightarrow> r = Z_STREAM_END)
           \<and> (avail_out st' = 0 \<and> r \<noteq> Z_STREAM_END \<longrightarrow>
                backlog g (internal st') (next_in st') f
                  < backlog g (internal st) (next_in st) f))
      \<and> (\<forall>st r st'.
            deflating g (internal st) \<and> finished g (internal st) \<and> avail_in st = 0
            \<and> deflate z st Z_FINISH = (r, st') \<longrightarrow> r = Z_STREAM_END \<and> st' = st))"

text \<open>
  \<^verbatim>\<open>inflate\<close>, on a stream that is not finished, with room for output, fed with what is so far
  a first part of a compressed text \<open>C\<close> of data \<open>S\<close>: it reports neither an error nor the need
  of a dictionary; it reports \<^verbatim>\<open>Z_STREAM_END\<close> exactly when it finishes, and then it has taken
  all of \<open>C\<close> and given all of \<open>S\<close>; if it leaves room without finishing, it has taken all
  the input, which is not yet all of \<open>C\<close>; and a call that fills the room lowers the backlog.
  On a finished stream it reports \<^verbatim>\<open>Z_STREAM_END\<close> again and changes nothing.
\<close>

definition inflate_contract :: "'z zlib \<Rightarrow> 'z zlib_views \<Rightarrow> bool" where
  "inflate_contract z g =
     ((\<forall>S C st r st' rest.
         codec g S C \<and> inflating g S C (internal st) \<and> \<not> finished g (internal st)
         \<and> avail_in st = length (next_in st) \<and> avail_out st > 0
         \<and> taken g (internal st) @ next_in st @ rest = C
         \<and> inflate z st Z_NO_FLUSH = (r, st') \<longrightarrow>
           exchanged g st st' \<and> inflating g S C (internal st')
           \<and> r \<noteq> Z_STREAM_ERROR \<and> r \<noteq> Z_NEED_DICT \<and> r \<noteq> Z_DATA_ERROR \<and> r \<noteq> Z_MEM_ERROR
           \<and> (finished g (internal st') \<longleftrightarrow> r = Z_STREAM_END)
           \<and> (r = Z_STREAM_END \<longrightarrow>
                taken g (internal st') = C \<and> given g (internal st') = S)
           \<and> (avail_out st' \<noteq> 0 \<and> r \<noteq> Z_STREAM_END \<longrightarrow>
                avail_in st' = 0 \<and> taken g (internal st') \<noteq> C)
           \<and> (avail_out st' = 0 \<and> r \<noteq> Z_STREAM_END \<longrightarrow>
                backlog g (internal st') (next_in st') Z_NO_FLUSH
                  < backlog g (internal st) (next_in st) Z_NO_FLUSH))
      \<and> (\<forall>S C st r st'.
            inflating g S C (internal st) \<and> finished g (internal st)
            \<and> inflate z st Z_NO_FLUSH = (r, st') \<longrightarrow> r = Z_STREAM_END \<and> st' = st))"

text \<open>
  Setting up: both initialisations succeed (for \<^verbatim>\<open>deflateInit2\<close>, with the level asked for) and
  give a stream that has taken and given nothing; no compressed text is empty; and the
  chunk size is not zero.
\<close>

definition zlib_contract :: "'z zlib \<Rightarrow> 'z zlib_views \<Rightarrow> int \<Rightarrow> bool" where
  "zlib_contract z g level =
     (deflate_contract z g \<and> inflate_contract z g
      \<and> (\<exists>d0. deflateInit2 z level (OML_ZLIB_WINDOWBITS z) = (Z_OK, d0)
            \<and> deflating g d0 \<and> \<not> finished g d0 \<and> taken g d0 = [] \<and> given g d0 = [])
      \<and> (\<exists>i0. inflateInit2 z (OML_ZLIB_WINDOWBITS z) = (Z_OK, i0)
            \<and> (\<forall>S C. codec g S C \<longrightarrow> inflating g S C i0)
            \<and> \<not> finished g i0 \<and> taken g i0 = [] \<and> given g i0 = [])
      \<and> (\<forall>S C. codec g S C \<longrightarrow> C \<noteq> [])
      \<and> OML_ZLIB_CHUNKSIZE z > 0)"

text \<open>A file to read from and an empty file to write to, both free of errors.\<close>

definition file_of :: "byte list \<Rightarrow> rfile" where
  "file_of bs = \<lparr>unread = bs, rerror_after = None\<rparr>"

definition empty_file :: wfile where
  "empty_file = \<lparr>written = [], werror_after = None\<rparr>"

subsection \<open>What holds at the loop heads of a round trip\<close>

text \<open>
  \<^verbatim>\<open>oml_zlib_def\<close> compressing the data \<open>S\<close>: at the head of the outer loop, what the library
  has taken and what is left in the file make up \<open>S\<close>, and what the library has given is what
  has been written; the stream is not finished.
\<close>

definition def_outer_inv :: "'z zlib_views \<Rightarrow> byte list \<Rightarrow> 'z def_state \<Rightarrow> bool" where
  "def_outer_inv g S s =
     (let d = internal (dstrm s) in
      deflating g d \<and> \<not> finished g d
      \<and> taken g d @ unread (dsource s) = S \<and> given g d = written (ddest s)
      \<and> rerror_after (dsource s) = None \<and> werror_after (ddest s) = None)"

text \<open>
  At the head of the inner loop the chunk last read lies between the two; \<^verbatim>\<open>Z_FINISH\<close> is
  asked for only when the file is exhausted; and a finished stream has taken all of \<open>S\<close>.
\<close>

definition def_inner_inv :: "'z zlib_views \<Rightarrow> byte list \<Rightarrow> 'z def_state \<Rightarrow> bool" where
  "def_inner_inv g S s =
     (let st = dstrm s; d = internal st in
      deflating g d \<and> avail_in st = length (next_in st)
      \<and> taken g d @ next_in st @ unread (dsource s) = S \<and> given g d = written (ddest s)
      \<and> rerror_after (dsource s) = None \<and> werror_after (ddest s) = None
      \<and> (dflush s = Z_NO_FLUSH \<or> dflush s = Z_FINISH)
      \<and> (dflush s = Z_FINISH \<longrightarrow> unread (dsource s) = [])
      \<and> (finished g d \<longrightarrow>
           dflush s = Z_FINISH \<and> next_in st = [] \<and> codec g (taken g d) (given g d)))"

definition def_measure :: "'z zlib_views \<Rightarrow> 'z def_state \<Rightarrow> nat" where
  "def_measure g s =
     (if finished g (internal (dstrm s)) then 0
      else Suc (backlog g (internal (dstrm s)) (next_in (dstrm s)) (dflush s)))"

definition def_post :: "'z zlib_views \<Rightarrow> byte list \<Rightarrow> 'z def_result \<Rightarrow> bool" where
  "def_post g S r = (def_ret r = Z_OK \<and> codec g S (written (ddest (def_final r))))"

text \<open>
  \<^verbatim>\<open>oml_zlib_inf\<close> reading a compressed text \<open>C\<close> of \<open>S\<close>: the same, and the outer loop is only
  entered again when not all of \<open>C\<close> has been taken.
\<close>

definition inf_outer_inv ::
  "'z zlib_views \<Rightarrow> byte list \<Rightarrow> byte list \<Rightarrow> 'z inf_state \<Rightarrow> bool"
where
  "inf_outer_inv g S C s =
     (let d = internal (strm s) in
      inflating g S C d \<and> \<not> finished g d
      \<and> taken g d @ unread (source s) = C \<and> taken g d \<noteq> C
      \<and> given g d = written (dest s) \<and> resynced s = 0
      \<and> rerror_after (source s) = None \<and> werror_after (dest s) = None)"

definition inf_inner_inv ::
  "'z zlib_views \<Rightarrow> byte list \<Rightarrow> byte list \<Rightarrow> 'z inf_state \<Rightarrow> bool"
where
  "inf_inner_inv g S C s =
     (let st = strm s; d = internal st in
      inflating g S C d \<and> avail_in st = length (next_in st)
      \<and> taken g d @ next_in st @ unread (source s) = C
      \<and> given g d = written (dest s) \<and> resynced s = 0
      \<and> rerror_after (source s) = None \<and> werror_after (dest s) = None
      \<and> (finished g d \<longrightarrow> given g d = S))"

definition inf_measure :: "'z zlib_views \<Rightarrow> 'z inf_state \<Rightarrow> nat" where
  "inf_measure g s =
     (if finished g (internal (strm s)) then 0
      else Suc (backlog g (internal (strm s)) (next_in (strm s)) Z_NO_FLUSH))"

definition inf_done :: "byte list \<Rightarrow> 'z inf_result \<Rightarrow> bool" where
  "inf_done S r = (zret r = Z_OK \<and> written (dest (final r)) = S)"

subsection \<open>A small library to run the helpers on\<close>

text \<open>
  A stand-in for zlib with a plain format: each data byte preceded by a byte 1, and a byte 0
  at the end of the stream. Its state keeps all the input taken and all the output given so
  far; what it has still to give is the rest of the coding (or decoding) of the input.
\<close>

record toy_state =
  t_taken :: "byte list"
  t_given :: "byte list"
  t_done :: bool

fun toy_enc :: "byte list \<Rightarrow> byte list" where
  "toy_enc [] = []"
| "toy_enc (b # bs) = 1 # b # toy_enc bs"

fun toy_dec :: "byte list \<Rightarrow> byte list" where
  "toy_dec (t # b # bs) = (if t = 1 then b # toy_dec bs else [])"
| "toy_dec bs = []"

text \<open>Whether the input holds the whole of a stream.\<close>

fun toy_complete :: "byte list \<Rightarrow> bool" where
  "toy_complete [] = False"
| "toy_complete [t] = (t = 0)"
| "toy_complete (t # b # bs) = (if t = 1 then toy_complete bs else t = 0)"

text \<open>Whether the input can still become, or is, a stream: no tag other than 0 and 1.\<close>

fun toy_wellformed :: "byte list \<Rightarrow> bool" where
  "toy_wellformed [] = True"
| "toy_wellformed [t] = (t = 0 \<or> t = 1)"
| "toy_wellformed (t # b # bs) = (if t = 1 then toy_wellformed bs else t = 0)"

definition toy_step ::
  "toy_state z_stream \<Rightarrow> byte list \<Rightarrow> bool \<Rightarrow> int \<times> toy_state z_stream"
where
  "toy_step st all_out last_call =
     (let d = internal st;
          p = take (avail_out st) (drop (length (t_given d)) all_out);
          given = t_given d @ p;
          done = (last_call \<and> given = all_out)
      in (if done then Z_STREAM_END else Z_OK,
          st\<lparr>avail_in := 0, next_in := [], avail_out := avail_out st - length p,
             out := out st @ p,
             internal := \<lparr>t_taken = t_taken d @ next_in st, t_given = given,
                          t_done = done\<rparr>\<rparr>))"

definition toy_deflate :: "toy_state z_stream \<Rightarrow> int \<Rightarrow> int \<times> toy_state z_stream" where
  "toy_deflate st flush =
     (let d = internal st in
      if t_done d then (Z_STREAM_END, st)
      else toy_step st (toy_enc (t_taken d @ next_in st) @ (if flush = Z_FINISH then [0] else []))
             (flush = Z_FINISH))"

definition toy_inflate :: "toy_state z_stream \<Rightarrow> int \<Rightarrow> int \<times> toy_state z_stream" where
  "toy_inflate st flush =
     (let d = internal st; taken = t_taken d @ next_in st in
      if t_done d then (Z_STREAM_END, st)
      else if \<not> toy_wellformed taken then (Z_DATA_ERROR, st)
      else toy_step st (toy_dec taken) (toy_complete taken))"

definition toy_init :: toy_state where
  "toy_init = \<lparr>t_taken = [], t_given = [], t_done = False\<rparr>"

definition toy_zlib :: "toy_state zlib" where
  "toy_zlib = \<lparr>OML_ZLIB_CHUNKSIZE = 4, OML_ZLIB_WINDOWBITS = 31,
     inflateInit2 = (\<lambda>w. (Z_OK, toy_init)),
     inflate = toy_inflate,
     inflateSync = (\<lambda>st. (Z_DATA_ERROR, st)),
     deflateInit2 = (\<lambda>level w. (Z_OK, toy_init)),
     deflate = toy_deflate\<rparr>"

text \<open>The views of the stand-in.\<close>

definition toy_views :: "toy_state zlib_views" where
  "toy_views =
     \<lparr>codec = (\<lambda>S C. C = toy_enc S @ [0]),
      taken = t_taken,
      given = t_given,
      finished = t_done,
      deflating = (\<lambda>d. if t_done d then t_given d = toy_enc (t_taken d) @ [0]
                        else \<exists>rest. t_given d @ rest = toy_enc (t_taken d)),
      inflating = (\<lambda>S C d. C = toy_enc S @ [0] \<and> (\<exists>rest. t_taken d @ rest = C)
                     \<and> (\<exists>rest. t_given d @ rest = toy_dec (t_taken d))
                     \<and> (t_done d \<longrightarrow> t_taken d = C \<and> t_given d = S)),
      backlog = (\<lambda>d inp f. if f = Z_NO_FLUSH \<or> f = Z_FINISH
                            then 2 * length (t_taken d @ inp) + 1 - length (t_given d)
                            else 0)\<rparr>"


section \<open>Collection URIs: \<^verbatim>\<open>parse_uri\<close>\<close>

text \<open>
  Source: the part of \<^verbatim>\<open>src/lib/ocomm/test/client.c\<close> that holds \<^verbatim>\<open>oml_utils.c\<close>. A C string is a
  \<open>string\<close> without its terminating NUL, a pointer that may be \<^verbatim>\<open>NULL\<close> a \<open>string option\<close>.
  Failure of the allocator in \<^verbatim>\<open>oml_strndup\<close> is left out.
\<close>

datatype OmlURIType =
    OML_URI_UNKNOWN
  | OML_URI_FILE
  | OML_URI_FILE_FLUSH
  | OML_URI_TCP
  | OML_URI_UDP

text \<open>
  Modelled from the spec: the values of the enumeration \<^verbatim>\<open>OmlURIType\<close>, which is declared in
  \<^verbatim>\<open>oml_utils.h\<close>, not among the sources. The spec has \<^verbatim>\<open>file\<close> and \<^verbatim>\<open>flush\<close> as the file sinks
  and \<^verbatim>\<open>tcp\<close> and \<^verbatim>\<open>udp\<close> as the network protocols; the two range tests of the source select
  these with the constants numbered in this order.
\<close>

fun uri_type_value :: "OmlURIType \<Rightarrow> int" where
  "uri_type_value OML_URI_UNKNOWN = - 1"
| "uri_type_value OML_URI_FILE = 0"
| "uri_type_value OML_URI_FILE_FLUSH = 1"
| "uri_type_value OML_URI_TCP = 2"
| "uri_type_value OML_URI_UDP = 3"

text \<open>\<^verbatim>\<open>len >= n && !strncmp(uri, s, n)\<close> with \<open>n\<close> the length of \<open>s\<close>.\<close>

definition starts_with :: "string \<Rightarrow> string \<Rightarrow> bool" where
  "starts_with s u = (length u \<ge> length s \<and> take (length s) u = s)"

definition oml_uri_type :: "string option \<Rightarrow> OmlURIType" where
  "oml_uri_type uri =
     (case uri of
        None \<Rightarrow> OML_URI_UNKNOWN
      | Some u \<Rightarrow>
          if starts_with ''flush'' u then OML_URI_FILE_FLUSH
          else if starts_with ''file'' u then OML_URI_FILE
          else if starts_with ''tcp'' u then OML_URI_TCP
          else if starts_with ''udp'' u then OML_URI_UDP
          else OML_URI_UNKNOWN)"

definition oml_uri_is_file :: "OmlURIType \<Rightarrow> bool" where
  "oml_uri_is_file t =
     (uri_type_value t \<ge> uri_type_value OML_URI_FILE
      \<and> uri_type_value t \<le> uri_type_value OML_URI_FILE_FLUSH)"

definition oml_uri_is_network :: "OmlURIType \<Rightarrow> bool" where
  "oml_uri_is_network t =
     (uri_type_value t \<ge> uri_type_value OML_URI_TCP
      \<and> uri_type_value t \<le> uri_type_value OML_URI_UDP)"

text \<open>
  \<^verbatim>\<open>strsep(&p, d)\<close> for a one-character delimiter string: the token returned and the new value
  of \<^verbatim>\<open>p\<close>. The tokens are disjoint pieces of the one copy of the URI, so each can be held as a
  string of its own.
\<close>

definition strsep :: "string option \<Rightarrow> char \<Rightarrow> string option \<times> string option" where
  "strsep stringp delim =
     (case stringp of
        None \<Rightarrow> (None, None)
      | Some s \<Rightarrow>
          if delim \<in> set s
          then (Some (takeWhile (\<lambda>c. c \<noteq> delim) s), Some (tl (dropWhile (\<lambda>c. c \<noteq> delim) s)))
          else (Some s, None))"

text \<open>\<^verbatim>\<open>parts[i] ? strlen (parts[i]) : 0\<close>\<close>

definition strlen_or_0 :: "string option \<Rightarrow> nat" where
  "strlen_or_0 p = (case p of None \<Rightarrow> 0 | Some s \<Rightarrow> length s)"

text \<open>The macro \<^verbatim>\<open>trydup\<close>.\<close>

definition trydup :: "string option list \<Rightarrow> nat list \<Rightarrow> nat \<Rightarrow> string option" where
  "trydup parts lengths i =
     (case parts ! i of
        Some s \<Rightarrow> if lengths ! i > 0 then Some (take (lengths ! i) s) else None
      | None \<Rightarrow> None)"

text \<open>The messages that \<^verbatim>\<open>parse_uri\<close> logs, with their argument.\<close>

datatype uri_log =
    Logwarn_no_hostname string
  | Logwarn_unknown_scheme "string option"
  | Logerror_empty string

text \<open>
  The splitting of lines 361 to 402: the arrays \<^verbatim>\<open>parts\<close> and \<^verbatim>\<open>lengths\<close> once the unused items
  are cleared. In the branch for brackets, after the last \<^verbatim>\<open>strsep\<close> the entry \<^verbatim>\<open>parts[2]\<close> either
  is the entry just assigned or is cleared by the loop that follows.
\<close>

definition split_uri :: "string \<Rightarrow> string option list \<times> nat list" where
  "split_uri u =
     (case strsep (Some u) CHR ''['' of
        (p0, p2) \<Rightarrow>
          let parts = [p0, None, p2]; lengths = [0, 0, 0] in
          if parts ! 2 \<noteq> None then
            let i = 0;
                (parts, lengths, i) =
                  (if parts ! i \<noteq> Some [] then
                     let parts = parts[i := fst (strsep (parts ! i) CHR '':'')];
                         lengths = lengths[i := strlen_or_0 (parts ! i)]
                     in (parts, lengths, i + 1)
                   else (parts, lengths, i));
                (tok, rest) = strsep (parts ! 2) CHR '']'';
                parts = parts[2 := rest];
                parts = parts[i := tok];
                lengths = lengths[i := strlen_or_0 (parts ! i)];
                i = i + 1;
                parts = parts[i := parts ! 2];
                parts = parts[i := snd (strsep (parts ! i) CHR '':'')];
                lengths = lengths[i := strlen_or_0 (parts ! i)]
            in (if i + 1 < 3 then (parts[2 := None], lengths[2 := 0]) else (parts, lengths))
          else
            let parts = parts[2 := parts ! 0];
                (t0, r0) = strsep (parts ! 2) CHR '':'';
                parts = parts[2 := r0];
                parts = parts[0 := t0];
                lengths = lengths[0 := strlen_or_0 (parts ! 0)];
                (t1, r1) = strsep (parts ! 2) CHR '':'';
                parts = parts[2 := r1];
                parts = parts[1 := t1];
                lengths = lengths[1 := strlen_or_0 (parts ! 1)];
                lengths = lengths[2 := strlen_or_0 (parts ! 2)]
            in (parts, lengths))"

text \<open>
  \<^verbatim>\<open>parse_uri\<close>: the return value, the three output parameters \<^verbatim>\<open>*protocol\<close>, \<^verbatim>\<open>*path\<close> and
  \<^verbatim>\<open>*port\<close> (given as they were before the call, which a \<^verbatim>\<open>NULL\<close> URI leaves alone), and the
  messages logged.
\<close>

definition parse_uri ::
  "string option \<Rightarrow> string option \<times> string option \<times> string option
     \<Rightarrow> int \<times> (string option \<times> string option \<times> string option) \<times> uri_log list"
where
  "parse_uri uri outs =
     (case uri of
        None \<Rightarrow> (0, outs, [])
      | Some u \<Rightarrow>
          let uri_type = oml_uri_type uri in
          (case split_uri u of
             (parts, lengths) \<Rightarrow>
               if lengths ! 0 > 0 \<and> lengths ! 1 > 0 then
                 if oml_uri_is_network uri_type
                 then (0, (trydup parts lengths 0, trydup parts lengths 1,
                           trydup parts lengths 2), [])
                 else if oml_uri_is_file uri_type
                 then (0, (trydup parts lengths 0, trydup parts lengths 1, None), [])
                 else (0, (None, trydup parts lengths 0, trydup parts lengths 1), [])
               else if lengths ! 0 > 0 \<and> lengths ! 2 > 0 then
                 (- 1, (None, None, None), [Logwarn_no_hostname u])
               else if lengths ! 0 > 0 then
                 let path = trydup parts lengths 0 in
                 (0, (None, path, None),
                  if uri_type \<noteq> OML_URI_UNKNOWN then [Logwarn_unknown_scheme path] else [])
               else (- 1, (None, None, None), [Logerror_empty u])))"


section \<open>The key/value store and the sender table\<close>

text \<open>
  Source: \<^verbatim>\<open>psql_get_key_value\<close>, \<^verbatim>\<open>psql_set_key_value\<close>, \<^verbatim>\<open>psql_add_sender_id\<close> and their wrappers in
  \<^verbatim>\<open>src/server/psql_adapter.c\<close>. These functions build the text of a statement with
  \<^verbatim>\<open>mstring_sprintf\<close> and hand it to \<^verbatim>\<open>PQexec\<close>; what they return depends on what the server
  answers. The server is not part of the repository. The model below stands for a PostgreSQL
  server as far as the four statements of these functions go.
\<close>

subsection \<open>C library: \<^verbatim>\<open>atoi\<close> and \<^verbatim>\<open>%d\<close>\<close>

definition is_digit :: "char \<Rightarrow> bool" where
  "is_digit c = (c \<in> set ''0123456789'')"

definition is_space :: "char \<Rightarrow> bool" where
  "is_space c = (c \<in> {CHR '' '', CHR 0x09, CHR 0x0A, CHR 0x0B, CHR 0x0C, CHR 0x0D})"

definition digit_value :: "char \<Rightarrow> nat" where
  "digit_value c = of_char c - 48"

definition nat_of_digits :: "string \<Rightarrow> nat" where
  "nat_of_digits ds = foldl (\<lambda>a c. 10 * a + digit_value c) 0 ds"

text \<open>An optional sign and the text after it.\<close>

definition split_sign :: "string \<Rightarrow> int \<times> string" where
  "split_sign s =
     (case s of
        c # r \<Rightarrow> if c = CHR ''-'' then (- 1, r) else if c = CHR ''+'' then (1, r) else (1, s)
      | [] \<Rightarrow> (1, s))"

text \<open>\<^verbatim>\<open>atoi\<close>, for text whose value fits an \<^verbatim>\<open>int\<close>.\<close>

definition atoi :: "string \<Rightarrow> int" where
  "atoi s =
     (case split_sign (dropWhile is_space s) of
        (sign, r) \<Rightarrow> sign * int (nat_of_digits (takeWhile is_digit r)))"

fun digits_of_nat :: "nat \<Rightarrow> string" where
  "digits_of_nat n =
     (if n < 10 then [''0123456789'' ! n]
      else digits_of_nat (n div 10) @ [''0123456789'' ! (n mod 10)])"

text \<open>The text that \<^verbatim>\<open>%d\<close> produces.\<close>

definition sprintf_d :: "int \<Rightarrow> string" where
  "sprintf_d i = (if i < 0 then CHR ''-'' # digits_of_nat (nat (- i)) else digits_of_nat (nat i))"

subsection \<open>The server\<close>

text \<open>
  A table has named columns of type \<^verbatim>\<open>TEXT\<close> or \<^verbatim>\<open>INT\<close>, some of them unique, and rows that give
  each column a value or \<^verbatim>\<open>NULL\<close> (\<open>None\<close>). Values are held in the text form in which the
  server sends them back.
\<close>

datatype coltype = PG_TEXT | PG_INT

record pg_table =
  columns :: "(string \<times> coltype) list"
  unique_columns :: "string list"
  trows :: "(string \<Rightarrow> string option) list"

record PGconn =
  tables :: "string \<Rightarrow> pg_table option"

record PGresult =
  PQresultStatus :: ExecStatusType
  PQnfields :: nat
  tuples :: "string option list list"

definition PQntuples :: "PGresult \<Rightarrow> nat" where
  "PQntuples res = length (tuples res)"

text \<open>\<^verbatim>\<open>PQgetvalue\<close> gives the empty string for a \<^verbatim>\<open>NULL\<close> field.\<close>

definition PQgetvalue :: "PGresult \<Rightarrow> nat \<Rightarrow> nat \<Rightarrow> string" where
  "PQgetvalue res i j = (case tuples res ! i ! j of None \<Rightarrow> [] | Some v \<Rightarrow> v)"

text \<open>
  The statements, each with the arguments of its format string in their order:
  \<^item> \<open>Select_where\<close>: \<^verbatim>\<open>SELECT %s FROM %s WHERE %s='%s';\<close>
  \<^item> \<open>Insert_into\<close>: \<^verbatim>\<open>INSERT INTO "%s" ("%s", "%s") VALUES ('%s', '%s');\<close>
  \<^item> \<open>Update_set\<close>: \<^verbatim>\<open>UPDATE "%s" SET "%s"='%s' WHERE "%s"='%s';\<close>
  \<^item> \<open>Select_max_id_senders\<close>: \<^verbatim>\<open>SELECT MAX(id) FROM _senders;\<close>
\<close>

datatype sql =
    Select_where string string string string
  | Insert_into string string string string string
  | Update_set string string string string string
  | Select_max_id_senders

text \<open>
  How the server reads the arguments out of the text. A name made of lower-case letters,
  digits and underscores, not starting with a digit, denotes itself with or without double
  quotes around it (reserved words aside). Between single quotes, two single quotes stand for
  one, and a single quote on its own ends the literal, so that what follows it is read as
  SQL; such statements, and names outside the ones above, are beyond this model, which
  answers them with an error. The theorems that depend on this say so in their hypotheses.
\<close>

definition sql_ident :: "string \<Rightarrow> bool" where
  "sql_ident s =
     (s \<noteq> [] \<and> list_all (\<lambda>c. c \<in> set ''abcdefghijklmnopqrstuvwxyz0123456789_'') s
      \<and> \<not> is_digit (hd s))"

fun sql_literal :: "string \<Rightarrow> string option" where
  "sql_literal [] = Some []"
| "sql_literal [c] = (if c = CHR 0x27 then None else Some [c])"
| "sql_literal (c # d # cs) =
     (if c = CHR 0x27
      then (if d = CHR 0x27 then map_option ((#) c) (sql_literal cs) else None)
      else map_option ((#) c) (sql_literal (d # cs)))"

text \<open>
  The input function of an integer column: blanks, an optional sign, digits, blanks, within
  the range of four bytes.
\<close>

definition pg_int4in :: "string \<Rightarrow> int option" where
  "pg_int4in s =
     (case split_sign (dropWhile is_space s) of
        (sign, r) \<Rightarrow>
          let ds = takeWhile is_digit r; n = sign * int (nat_of_digits ds) in
          if ds \<noteq> [] \<and> list_all is_space (dropWhile is_digit r)
             \<and> - 2147483648 \<le> n \<and> n \<le> 2147483647
          then Some n else None)"

text \<open>A literal as a value of a column: the text the server keeps, if it accepts the literal.\<close>

definition col_input :: "coltype \<Rightarrow> string \<Rightarrow> string option" where
  "col_input t v = (case t of PG_TEXT \<Rightarrow> Some v | PG_INT \<Rightarrow> map_option sprintf_d (pg_int4in v))"

definition pg_error :: PGresult where
  "pg_error = \<lparr>PQresultStatus = PGRES_FATAL_ERROR, PQnfields = 0, tuples = []\<rparr>"

definition pg_command_ok :: PGresult where
  "pg_command_ok = \<lparr>PQresultStatus = PGRES_COMMAND_OK, PQnfields = 0, tuples = []\<rparr>"

definition unique_ok :: "pg_table \<Rightarrow> bool" where
  "unique_ok t = list_all (\<lambda>c. distinct (List.map_filter (\<lambda>r. r c) (trows t))) (unique_columns t)"

text \<open>The literal \<open>lit\<close> as a value for column \<open>c\<close> of table \<open>t\<close>.\<close>

definition literal_for :: "pg_table \<Rightarrow> string \<Rightarrow> string \<Rightarrow> string option" where
  "literal_for t c lit =
     (case (map_of (columns t) c, sql_literal lit) of
        (Some ty, Some v) \<Rightarrow> col_input ty v
      | _ \<Rightarrow> None)"

text \<open>Replace a table if the new rows respect its unique columns.\<close>

definition store_table :: "PGconn \<Rightarrow> string \<Rightarrow> pg_table \<Rightarrow> PGresult \<times> PGconn" where
  "store_table conn name t =
     (if unique_ok t then (pg_command_ok, conn\<lparr>tables := (tables conn)(name \<mapsto> t)\<rparr>)
      else (pg_error, conn))"

definition max_int_text :: "string list \<Rightarrow> string option" where
  "max_int_text vs =
     (case map atoi vs of [] \<Rightarrow> None | n # ns \<Rightarrow> Some (sprintf_d (fold max ns n)))"

fun PQexec :: "PGconn \<Rightarrow> sql \<Rightarrow> PGresult \<times> PGconn" where
  "PQexec conn (Select_where value_column table key_column key) =
     (if \<not> (sql_ident value_column \<and> sql_ident table \<and> sql_ident key_column) then (pg_error, conn)
      else
        (case tables conn table of
           None \<Rightarrow> (pg_error, conn)
         | Some t \<Rightarrow>
             (case (map_of (columns t) value_column, literal_for t key_column key) of
                (Some ty, Some k) \<Rightarrow>
                  (\<lparr>PQresultStatus = PGRES_TUPLES_OK, PQnfields = 1,
                    tuples = map (\<lambda>r. [r value_column])
                               (filter (\<lambda>r. r key_column = Some k) (trows t))\<rparr>, conn)
              | _ \<Rightarrow> (pg_error, conn))))"
| "PQexec conn (Insert_into table key_column value_column key value) =
     (if \<not> (sql_ident table \<and> sql_ident key_column \<and> sql_ident value_column)
         \<or> key_column = value_column
      then (pg_error, conn)
      else
        (case tables conn table of
           None \<Rightarrow> (pg_error, conn)
         | Some t \<Rightarrow>
             (case (literal_for t key_column key, literal_for t value_column value) of
                (Some k, Some v) \<Rightarrow>
                  store_table conn table
                    (t\<lparr>trows := trows t @ [(\<lambda>c. None)(key_column \<mapsto> k, value_column \<mapsto> v)]\<rparr>)
              | _ \<Rightarrow> (pg_error, conn))))"
| "PQexec conn (Update_set table value_column value key_column key) =
     (if \<not> (sql_ident table \<and> sql_ident key_column \<and> sql_ident value_column)
      then (pg_error, conn)
      else
        (case tables conn table of
           None \<Rightarrow> (pg_error, conn)
         | Some t \<Rightarrow>
             (case (literal_for t key_column key, literal_for t value_column value) of
                (Some k, Some v) \<Rightarrow>
                  store_table conn table
                    (t\<lparr>trows := map (\<lambda>r. if r key_column = Some k then r(value_column \<mapsto> v)
                                            else r) (trows t)\<rparr>)
              | _ \<Rightarrow> (pg_error, conn))))"
| "PQexec conn Select_max_id_senders =
     (case tables conn ''_senders'' of
        None \<Rightarrow> (pg_error, conn)
      | Some t \<Rightarrow>
          (case map_of (columns t) ''id'' of
             Some PG_INT \<Rightarrow>
               (\<lparr>PQresultStatus = PGRES_TUPLES_OK, PQnfields = 1,
                 tuples = [[max_int_text (List.map_filter (\<lambda>r. r ''id'') (trows t))]]\<rparr>, conn)
           | _ \<Rightarrow> (pg_error, conn)))"

subsection \<open>The adapter functions\<close>

text \<open>
  \<^verbatim>\<open>psql_get_key_value\<close>; \<open>None\<close> is the \<^verbatim>\<open>NULL\<close> it returns. The database handle is the
  connection; a \<^verbatim>\<open>SELECT\<close> leaves the server as it is.
\<close>

definition psql_get_key_value ::
  "PGconn option \<Rightarrow> string option \<Rightarrow> string option \<Rightarrow> string option \<Rightarrow> string option
     \<Rightarrow> string option"
where
  "psql_get_key_value database table key_column value_column key =
     (case (database, table, key_column, value_column, key) of
        (Some conn, Some t, Some kc, Some vc, Some k) \<Rightarrow>
          let res = fst (PQexec conn (Select_where vc t kc k)) in
          if PQresultStatus res \<noteq> PGRES_TUPLES_OK then None
          else if PQntuples res = 0 then None
          else if PQnfields res < 1 then None
          else Some (PQgetvalue res 0 0)
      | _ \<Rightarrow> None)"

text \<open>\<^verbatim>\<open>sql_stmt\<close>: 0 or -1, and the server after the statement.\<close>

definition sql_stmt :: "PGconn \<Rightarrow> sql \<Rightarrow> int \<times> PGconn" where
  "sql_stmt self stmt =
     (case PQexec self stmt of
        (res, conn) \<Rightarrow> if PQresultStatus res \<noteq> PGRES_COMMAND_OK then (- 1, conn) else (0, conn))"

definition psql_set_key_value ::
  "PGconn \<Rightarrow> string \<Rightarrow> string \<Rightarrow> string \<Rightarrow> string \<Rightarrow> string \<Rightarrow> int \<times> PGconn"
where
  "psql_set_key_value database table key_column value_column key value =
     (let check_value = psql_get_key_value (Some database) (Some table) (Some key_column)
                          (Some value_column) (Some key);
          stmt = (if check_value = None
                  then Insert_into table key_column value_column key value
                  else Update_set table value_column value key_column key)
      in case sql_stmt database stmt of
           (r, conn) \<Rightarrow> if r \<noteq> 0 then (- 1, conn) else (0, conn))"

definition psql_get_metadata :: "PGconn \<Rightarrow> string \<Rightarrow> string option" where
  "psql_get_metadata db key =
     psql_get_key_value (Some db) (Some ''_experiment_metadata'') (Some ''key'') (Some ''value'')
       (Some key)"

definition psql_set_metadata :: "PGconn \<Rightarrow> string \<Rightarrow> string \<Rightarrow> int \<times> PGconn" where
  "psql_set_metadata db key value =
     psql_set_key_value db ''_experiment_metadata'' ''key'' ''value'' key value"

definition psql_get_sender_id :: "PGconn \<Rightarrow> string \<Rightarrow> string option" where
  "psql_get_sender_id database name =
     psql_get_key_value (Some database) (Some ''_senders'') (Some ''name'') (Some ''id'')
       (Some name)"

definition psql_set_sender_id :: "PGconn \<Rightarrow> string \<Rightarrow> int \<Rightarrow> int \<times> PGconn" where
  "psql_set_sender_id database name i =
     psql_set_key_value database ''_senders'' ''name'' ''id'' name (sprintf_d i)"

text \<open>\<^verbatim>\<open>psql_add_sender_id\<close>: the index returned and the server afterwards.\<close>

definition psql_add_sender_id :: "PGconn \<Rightarrow> string \<Rightarrow> int \<times> PGconn" where
  "psql_add_sender_id db sender_id =
     (case psql_get_sender_id db sender_id of
        Some id_str \<Rightarrow> (atoi id_str, db)
      | None \<Rightarrow>
          (case PQexec db Select_max_id_senders of
             (res, conn) \<Rightarrow>
               let index = (if PQresultStatus res \<noteq> PGRES_TUPLES_OK then 0
                            else if PQntuples res = 0 then 0
                            else atoi (PQgetvalue res 0 0) + 1)
               in (index, snd (psql_set_sender_id conn sender_id index))))"

subsection \<open>A new database\<close>

text \<open>
  Modelled from the spec: the two tables that the server core creates when it opens a
  database, \<^verbatim>\<open>_senders(id INT PRIMARY KEY, name TEXT UNIQUE)\<close> and
  \<^verbatim>\<open>_experiment_metadata(key TEXT, value TEXT)\<close>, both without rows (the code that creates them
  is in \<^verbatim>\<open>database.c\<close>, not among the sources).
\<close>

definition new_database :: PGconn where
  "new_database =
     \<lparr>tables = [''_senders'' \<mapsto> \<lparr>columns = [(''id'', PG_INT), (''name'', PG_TEXT)],
                                  unique_columns = [''id'', ''name''], trows = []\<rparr>,
                ''_experiment_metadata'' \<mapsto> \<lparr>columns = [(''key'', PG_TEXT), (''value'', PG_TEXT)],
                                  unique_columns = [], trows = []\<rparr>]\<rparr>"

text \<open>The number of rows of a table that hold \<open>key\<close> in column \<open>key_column\<close>.\<close>

definition key_rows :: "PGconn \<Rightarrow> string \<Rightarrow> string \<Rightarrow> string \<Rightarrow> nat" where
  "key_rows conn table key_column key =
     (case tables conn table of
        None \<Rightarrow> 0
      | Some t \<Rightarrow> length (filter (\<lambda>r. r key_column = Some key) (trows t)))"

text \<open>Text without a single quote.\<close>

definition quote_free :: "string \<Rightarrow> bool" where
  "quote_free s = (CHR 0x27 \<notin> set s)"

text \<open>The value \<^verbatim>\<open>a''b\<close>, with two single quotes in the middle, and what the server makes of it.\<close>

definition ex_quoted :: string where
  "ex_quoted = [CHR ''a'', CHR 0x27, CHR 0x27, CHR ''b'']"

definition ex_unquoted :: string where
  "ex_unquoted = [CHR ''a'', CHR 0x27, CHR ''b'']"

text \<open>The metadata table after a first and after a second write of the key \<^verbatim>\<open>k\<close>.\<close>

definition ex_meta1 :: PGconn where
  "ex_meta1 = \<lparr>tables = (tables new_database)(''_experiment_metadata'' \<mapsto>
            \<lparr>columns = [(''key'', PG_TEXT), (''value'', PG_TEXT)], unique_columns = [],
             trows = [(\<lambda>c. None)(''key'' \<mapsto> ''k'', ''value'' \<mapsto> ''v1'')]\<rparr>)\<rparr>"

definition ex_meta2 :: PGconn where
  "ex_meta2 = \<lparr>tables = (tables ex_meta1)(''_experiment_metadata'' \<mapsto>
            \<lparr>columns = [(''key'', PG_TEXT), (''value'', PG_TEXT)], unique_columns = [],
             trows = [(\<lambda>c. None)(''key'' \<mapsto> ''k'', ''value'' \<mapsto> ''v2'')]\<rparr>)\<rparr>"


section \<open>Rediscovering the tables: \<^verbatim>\<open>psql_get_table_list\<close>\<close>

text \<open>
  Source: \<^verbatim>\<open>psql_get_table_list\<close> in \<^verbatim>\<open>src/server/psql_adapter.c\<close>. The answers of the connection and
  the helpers of other modules are inputs: the status of the two \<^verbatim>\<open>PQprepare\<close> calls, the status
  and the rows (one table name each) of the listing of \<^verbatim>\<open>pg_tables\<close>, for each table name the
  status and the rows of the query for its stored schema, the parser \<^verbatim>\<open>schema_from_meta\<close>, and
  whether \<^verbatim>\<open>table_descr_new\<close> fails to allocate a descriptor for a table.
\<close>

record table_list_env =
  PQprepare_OMLGetTableList :: ExecStatusType
  OMLGetTableList :: "ExecStatusType \<times> string list"
  PQprepare_OMLGetTableSchema :: ExecStatusType
  OMLGetTableSchema :: "string \<Rightarrow> ExecStatusType \<times> string list"
  schema_from_meta :: "string \<Rightarrow> schema option"
  table_descr_new_fails :: "string \<Rightarrow> bool"

record TableDescr =
  td_name :: string
  td_schema :: "schema option"

definition table_descr_new :: "table_list_env \<Rightarrow> string \<Rightarrow> schema option \<Rightarrow> TableDescr option" where
  "table_descr_new env name sch =
     (if table_descr_new_fails env name then None else Some \<lparr>td_name = name, td_schema = sch\<rparr>)"

text \<open>The first loop, lines 1152 to 1163: it stops at the first row that names the metadata table.\<close>

fun scan_for_meta :: "string list \<Rightarrow> bool" where
  "scan_for_meta [] = False"
| "scan_for_meta (name # names) =
     (if name = ''_experiment_metadata'' then True else scan_for_meta names)"

text \<open>What one turn of the second loop makes of a row: nothing, a descriptor, or the jump to \<^verbatim>\<open>fail_exit\<close>.\<close>

datatype row_outcome = Ignored | Described TableDescr | Failed

definition describe_table :: "table_list_env \<Rightarrow> string \<Rightarrow> row_outcome" where
  "describe_table env tablename =
     (if tablename = ''_senders''
      then (case table_descr_new env tablename None of None \<Rightarrow> Ignored | Some t \<Rightarrow> Described t)
      else
        (case OMLGetTableSchema env tablename of
           (st, rows) \<Rightarrow>
             if st \<noteq> PGRES_TUPLES_OK then Ignored
             else if length rows \<le> 0 then Ignored
             else
               (case schema_from_meta env (hd rows) of
                  None \<Rightarrow> Ignored
                | Some sch \<Rightarrow>
                    (case table_descr_new env tablename (Some sch) of
                       None \<Rightarrow> Failed
                     | Some t \<Rightarrow> Described t))))"

text \<open>
  The second loop, lines 1185 to 1244, over the rows from the current one on; the list built so
  far has its newest descriptor first. \<open>None\<close> is the jump to \<^verbatim>\<open>fail_exit\<close>.
\<close>

fun collect_tables ::
  "table_list_env \<Rightarrow> string list \<Rightarrow> TableDescr list \<times> int \<Rightarrow> (TableDescr list \<times> int) option"
where
  "collect_tables env [] acc = Some acc"
| "collect_tables env (tablename # names) acc =
     (case describe_table env tablename of
        Failed \<Rightarrow> None
      | Ignored \<Rightarrow> collect_tables env names acc
      | Described t \<Rightarrow> collect_tables env names (t # fst acc, snd acc + 1))"

text \<open>\<^verbatim>\<open>psql_get_table_list\<close>: the list returned (\<^verbatim>\<open>NULL\<close> is the empty list) and \<^verbatim>\<open>*num_tables\<close>.\<close>

definition psql_get_table_list :: "table_list_env \<Rightarrow> TableDescr list \<times> int" where
  "psql_get_table_list env =
     (if PQprepare_OMLGetTableList env \<noteq> PGRES_COMMAND_OK then ([], - 1)
      else
        (case OMLGetTableList env of
           (st, names) \<Rightarrow>
             if st \<noteq> PGRES_TUPLES_OK then ([], - 1)
             else if \<not> scan_for_meta names then ([], 0)
             else if PQprepare_OMLGetTableSchema env \<noteq> PGRES_COMMAND_OK then ([], - 1)
             else (case collect_tables env names ([], 0) of
                     None \<Rightarrow> ([], - 1)
                   | Some r \<Rightarrow> r)))"

text \<open>A database that has just been created, and one that holds a measurement table.\<close>

definition ex_fresh :: table_list_env where
  "ex_fresh = \<lparr>PQprepare_OMLGetTableList = PGRES_COMMAND_OK,
     OMLGetTableList = (PGRES_TUPLES_OK, []),
     PQprepare_OMLGetTableSchema = PGRES_COMMAND_OK,
     OMLGetTableSchema = (\<lambda>n. (PGRES_FATAL_ERROR, [])),
     schema_from_meta = (\<lambda>m. None),
     table_descr_new_fails = (\<lambda>n. False)\<rparr>"

definition ex_populated :: table_list_env where
  "ex_populated = \<lparr>PQprepare_OMLGetTableList = PGRES_COMMAND_OK,
     OMLGetTableList = (PGRES_TUPLES_OK, [''_senders'', ''_experiment_metadata'', ''power'']),
     PQprepare_OMLGetTableSchema = PGRES_COMMAND_OK,
     OMLGetTableSchema = (\<lambda>n. if n = ''power'' then (PGRES_TUPLES_OK, [''1 power v:double''])
                               else (PGRES_TUPLES_OK, [])),
     schema_from_meta = (\<lambda>m. if m = ''1 power v:double''
        then Some \<lparr>sname = ''power'', sfields = [\<lparr>fname = ''v'', ftype = OML_DOUBLE_VALUE\<rparr>]\<rparr>
        else None),
     table_descr_new_fails = (\<lambda>n. False)\<rparr>"


section \<open>Properties of \<^verbatim>\<open>psql_insert\<close>\<close>

lemmas block_defs = block_long_def block_int32_def block_uint32_def block_int64_def
  block_uint64_def block_double_def block_guid_def block_bool_def block_string_def
  block_blob_def block_vector_def block_default_def

lemma c_switch_long: "c_switch OML_LONG_VALUE switch_blocks env v st = (st, Return (- 1))"
  by (simp add: c_switch_def switch_blocks_def entry_def block_default_def)

lemma c_switch_uint32:
  "c_switch OML_UINT32_VALUE switch_blocks env v (len, p) =
     ((len, set_binary (psql_set_int64_value (int64Value (oml_value_get_value v)))
              (set_binary (psql_set_uint32_value (uint32Value (oml_value_get_value v))) p)),
      Break)"
  by (simp add: c_switch_def switch_blocks_def entry_def block_uint32_def block_int64_def)

lemma c_switch_flow:
  "snd (c_switch t switch_blocks env v st) \<in> {Break, Return (- 1), Undefined}"
  by (cases t; cases st)
     (simp_all add: c_switch_def switch_blocks_def entry_def block_defs Let_def
        split: prod.splits option.splits)

text \<open>One turn of the loop, read off the definition.\<close>

lemma encode_values_step:
  assumes "encode_values env fs i (v # vs) (len, ps) = (st', ex)"
  shows "(length fs \<le> i - NMETA \<or> length ps \<le> i) \<and> st' = (len, ps) \<and> ex = Loop_undefined
       \<or> i - NMETA < length fs \<and> i < length ps
           \<and> oml_value_get_type v \<noteq> ftype (fs ! (i - NMETA))
           \<and> st' = (len, ps) \<and> ex = Loop_return (- 1)
       \<or> i - NMETA < length fs \<and> i < length ps
           \<and> oml_value_get_type v = ftype (fs ! (i - NMETA))
           \<and> (\<exists>len' p'.
                 c_switch (ftype (fs ! (i - NMETA))) switch_blocks env v
                   (len, (ps ! i)\<lparr>paramLength := 0, paramFormat := 0\<rparr>) = ((len', p'), Return (- 1))
                 \<and> st' = (len', ps[i := p']) \<and> ex = Loop_return (- 1))
       \<or> i - NMETA < length fs \<and> i < length ps
           \<and> oml_value_get_type v = ftype (fs ! (i - NMETA))
           \<and> (\<exists>len' p'.
                 c_switch (ftype (fs ! (i - NMETA))) switch_blocks env v
                   (len, (ps ! i)\<lparr>paramLength := 0, paramFormat := 0\<rparr>) = ((len', p'), Undefined)
                 \<and> st' = (len', ps[i := p']) \<and> ex = Loop_undefined)
       \<or> i - NMETA < length fs \<and> i < length ps
           \<and> oml_value_get_type v = ftype (fs ! (i - NMETA))
           \<and> (\<exists>len' p'.
                 c_switch (ftype (fs ! (i - NMETA))) switch_blocks env v
                   (len, (ps ! i)\<lparr>paramLength := 0, paramFormat := 0\<rparr>) = ((len', p'), Break)
                 \<and> encode_values env fs (Suc i) vs (len', ps[i := p']) = (st', ex))"
proof -
  define sw where "sw = c_switch (ftype (fs ! (i - NMETA))) switch_blocks env v
                    (len, (ps ! i)\<lparr>paramLength := 0, paramFormat := 0\<rparr>)"
  obtain len' p' fl where sw': "sw = ((len', p'), fl)" by (cases sw) auto
  have fl: "fl = Break \<or> fl = Return (- 1) \<or> fl = Undefined"
    using c_switch_flow[of "ftype (fs ! (i - NMETA))" env v
            "(len, (ps ! i)\<lparr>paramLength := 0, paramFormat := 0\<rparr>)"]
    unfolding sw_def[symmetric] sw' by simp
  from assms sw' fl show ?thesis
    by (auto simp: Let_def sw_def[symmetric] split: if_splits)
qed

lemma encode_values_return:
  "encode_values env fs i vs st = (st', Loop_return r) \<Longrightarrow> r = - 1"
proof (induction vs arbitrary: i st)
  case Nil
  then show ?case by simp
next
  case (Cons v vs)
  obtain len ps where st: "st = (len, ps)" by (cases st)
  from encode_values_step[OF Cons.prems[unfolded st]] show ?case
    by (auto dest: Cons.IH)
qed

lemma encode_values_frame:
  "encode_values env fs i vs (len, ps) = ((len', ps'), ex) \<Longrightarrow>
     length ps' = length ps \<and> (\<forall>j<i. ps' ! j = ps ! j)"
proof (induction vs arbitrary: i len ps)
  case Nil
  then show ?case by simp
next
  case (Cons v vs)
  from encode_values_step[OF Cons.prems] show ?case
    by (auto dest!: Cons.IH)
qed


lemma encode_values_done:
  "encode_values env fs i vs (len, ps) = (st', Loop_done) \<Longrightarrow> NMETA \<le> i \<Longrightarrow> k < length vs \<Longrightarrow>
     i - NMETA + k < length fs
     \<and> oml_value_get_type (vs ! k) = ftype (fs ! (i - NMETA + k))
     \<and> oml_value_get_type (vs ! k) \<noteq> OML_LONG_VALUE"
proof (induction vs arbitrary: i len ps k)
  case Nil
  then show ?case by simp
next
  case (Cons v vs)
  from encode_values_step[OF Cons.prems(1)]
  obtain len' p' where
    inb: "i - NMETA < length fs" and
    ty: "oml_value_get_type v = ftype (fs ! (i - NMETA))" and
    sw: "c_switch (ftype (fs ! (i - NMETA))) switch_blocks env v
           (len, (ps ! i)\<lparr>paramLength := 0, paramFormat := 0\<rparr>) = ((len', p'), Break)" and
    rest: "encode_values env fs (Suc i) vs (len', ps[i := p']) = (st', Loop_done)"
    by auto
  show ?case
  proof (cases k)
    case 0
    have "ftype (fs ! (i - NMETA)) \<noteq> OML_LONG_VALUE"
      using sw by (auto simp: c_switch_long)
    with 0 inb ty show ?thesis by simp
  next
    case (Suc k')
    with Cons.prems have "k' < length vs" "NMETA \<le> Suc i" by simp_all
    from Cons.IH[OF rest this(2) this(1)]
    have "Suc i - NMETA + k' < length fs
       \<and> oml_value_get_type (vs ! k') = ftype (fs ! (Suc i - NMETA + k'))
       \<and> oml_value_get_type (vs ! k') \<noteq> OML_LONG_VALUE" .
    moreover have "Suc i - NMETA + k' = i - NMETA + k"
      using Suc Cons.prems(2) by simp
    ultimately show ?thesis using Suc by auto
  qed
qed

lemma encode_values_mismatch:
  "encode_values env fs i vs (len, ps) = ((len', ps'), ex) \<Longrightarrow> NMETA \<le> i \<Longrightarrow> k < length vs \<Longrightarrow>
     oml_value_get_type (vs ! k) \<noteq> ftype (fs ! (i - NMETA + k)) \<Longrightarrow>
     ex \<noteq> Loop_done \<and> ps' ! (i + k) = ps ! (i + k)"
proof (induction vs arbitrary: i len ps k)
  case Nil
  then show ?case by simp
next
  case (Cons v vs)
  show ?case
  proof (cases k)
    case 0
    with Cons.prems(4) have "oml_value_get_type v \<noteq> ftype (fs ! (i - NMETA))" by simp
    with encode_values_step[OF Cons.prems(1)] 0 show ?thesis by auto
  next
    case (Suc k')
    with Cons.prems have k': "k' < length vs" and i': "NMETA \<le> Suc i"
      and mm: "oml_value_get_type (vs ! k') \<noteq> ftype (fs ! (Suc i - NMETA + k'))"
      by (simp_all add: Suc_diff_le)
    from encode_values_step[OF Cons.prems(1)] show ?thesis
    proof (elim disjE conjE exE)
      fix l p
      assume "encode_values env fs (Suc i) vs (l, ps[i := p]) = ((len', ps'), ex)"
      from Cons.IH[OF this i' k' mm] Suc show ?thesis by simp
    qed (use Suc in auto)
  qed
qed

lemma encode_values_encoded:
  "encode_values env fs i vs (len, ps) = ((len', ps'), Loop_done) \<Longrightarrow> k < length vs \<Longrightarrow>
     \<exists>l l'. c_switch (oml_value_get_type (vs ! k)) switch_blocks env (vs ! k)
              (l, (ps ! (i + k))\<lparr>paramLength := 0, paramFormat := 0\<rparr>)
            = ((l', ps' ! (i + k)), Break)"
proof (induction vs arbitrary: i len ps k)
  case Nil
  then show ?case by simp
next
  case (Cons v vs)
  from encode_values_step[OF Cons.prems(1)]
  obtain l1 p1 where
    inb: "i < length ps" and
    ty: "oml_value_get_type v = ftype (fs ! (i - NMETA))" and
    sw: "c_switch (ftype (fs ! (i - NMETA))) switch_blocks env v
           (len, (ps ! i)\<lparr>paramLength := 0, paramFormat := 0\<rparr>) = ((l1, p1), Break)" and
    rest: "encode_values env fs (Suc i) vs (l1, ps[i := p1]) = ((len', ps'), Loop_done)"
    by auto
  show ?case
  proof (cases k)
    case 0
    from encode_values_frame[OF rest] inb have "ps' ! i = p1" by simp
    with sw ty 0 show ?thesis by auto
  next
    case (Suc k')
    with Cons.prems have "k' < length vs" by simp
    from Cons.IH[OF rest this] Suc show ?thesis by simp
  qed
qed



lemma meta_bound_frame:
  "length (meta_bound env table sender_id seq_no time_stamp) = length (pvalues (thandle table))"
  "NMETA \<le> j \<Longrightarrow> j < length (pvalues (thandle table)) \<Longrightarrow>
     pvalue (meta_bound env table sender_id seq_no time_stamp ! j) = pvalues (thandle table) ! j"
  by (simp_all add: meta_bound_def bind_param_def init_params_def NMETA_def)

lemma psql_insert_unfold:
  "psql_insert env db table sender_id seq_no time_stamp values =
     (if NMETA + length values \<noteq> length (pvalues (thandle table)) then Inl Assertion_failed
      else if tv_sec env > last_commit (handle db) \<and> dba_reopen_transaction_ret env = - 1
      then Inr \<lparr>ret = - 1, db_after = db,
                table_after = with_values table
                  (bind_param 2 (psql_set_double_value time_stamp)
                    (bind_param 1 (psql_set_int32_value seq_no)
                      (bind_param 0 (psql_set_int32_value sender_id)
                        (init_params (pvalues (thandle table)))))),
                calls = [Dba_reopen_transaction]\<rparr>
      else
        (case encode_values env (sfields (tschema table)) NMETA values
                (MAX_DIGITS, meta_bound env table sender_id seq_no time_stamp) of
           ((len, ps'), Loop_undefined) \<Rightarrow> Inl Undefined_behaviour
         | ((len, ps'), Loop_return r) \<Rightarrow>
             Inr \<lparr>ret = r,
                  db_after = (if tv_sec env > last_commit (handle db)
                              then db\<lparr>handle := (handle db)\<lparr>last_commit := tv_sec env\<rparr>\<rparr>
                              else db),
                  table_after = with_values table ps',
                  calls = (if tv_sec env > last_commit (handle db)
                           then [Dba_reopen_transaction] else [])\<rparr>
         | ((len, ps'), Loop_done) \<Rightarrow>
             Inr \<lparr>ret = (if PQexecPrepared_status env \<noteq> PGRES_COMMAND_OK then - 1 else 0),
                  db_after = (if tv_sec env > last_commit (handle db)
                              then db\<lparr>handle := (handle db)\<lparr>last_commit := tv_sec env\<rparr>\<rparr>
                              else db),
                  table_after = with_values table ps',
                  calls = (if tv_sec env > last_commit (handle db)
                           then [Dba_reopen_transaction] else [])
                          @ [PQexecPrepared (insert_stmt (thandle table)) (NMETA + length values)
                               (map pvalue ps') (map paramLength ps')
                               (map paramFormat ps')]\<rparr>))"
  unfolding psql_insert_def meta_bound_def Let_def by (rule refl)

lemma psql_insert_Inr:
  assumes "psql_insert env db table sender_id seq_no time_stamp values = Inr r"
  obtains
    (reopen_failed) "tv_sec env > last_commit (handle db)" "dba_reopen_transaction_ret env = - 1"
      "ret r = - 1" "calls r = [Dba_reopen_transaction]" "db_after r = db"
      "\<forall>j\<ge>NMETA. j < length (pvalues (thandle table)) \<longrightarrow>
         pvalues (thandle (table_after r)) ! j = pvalues (thandle table) ! j"
  | (returned) len ps' where
      "NMETA + length values = length (pvalues (thandle table))"
      "\<not> (tv_sec env > last_commit (handle db) \<and> dba_reopen_transaction_ret env = - 1)"
      "encode_values env (sfields (tschema table)) NMETA values
          (MAX_DIGITS, meta_bound env table sender_id seq_no time_stamp)
         = ((len, ps'), Loop_return (ret r))"
      "calls r = (if tv_sec env > last_commit (handle db) then [Dba_reopen_transaction] else [])"
      "table_after r = with_values table ps'"
      "db_after r = (if tv_sec env > last_commit (handle db)
                     then db\<lparr>handle := (handle db)\<lparr>last_commit := tv_sec env\<rparr>\<rparr> else db)"
  | (finished) len ps' where
      "NMETA + length values = length (pvalues (thandle table))"
      "\<not> (tv_sec env > last_commit (handle db) \<and> dba_reopen_transaction_ret env = - 1)"
      "encode_values env (sfields (tschema table)) NMETA values
          (MAX_DIGITS, meta_bound env table sender_id seq_no time_stamp)
         = ((len, ps'), Loop_done)"
      "ret r = (if PQexecPrepared_status env \<noteq> PGRES_COMMAND_OK then - 1 else 0)"
      "calls r = (if tv_sec env > last_commit (handle db) then [Dba_reopen_transaction] else [])
                 @ [PQexecPrepared (insert_stmt (thandle table)) (NMETA + length values)
                      (map pvalue ps') (map paramLength ps') (map paramFormat ps')]"
      "table_after r = with_values table ps'"
      "db_after r = (if tv_sec env > last_commit (handle db)
                     then db\<lparr>handle := (handle db)\<lparr>last_commit := tv_sec env\<rparr>\<rparr> else db)"
proof -
  let ?e = "encode_values env (sfields (tschema table)) NMETA values
          (MAX_DIGITS, meta_bound env table sender_id seq_no time_stamp)"
  obtain len ps' ex where e: "?e = ((len, ps'), ex)" by (metis surj_pair)
  from assms have a: "NMETA + length values = length (pvalues (thandle table))"
    by (auto simp: psql_insert_unfold split: if_splits)
  show thesis
  proof (cases "tv_sec env > last_commit (handle db) \<and> dba_reopen_transaction_ret env = - 1")
    case True
    with assms a show thesis
      by (intro reopen_failed)
         (auto simp: psql_insert_unfold with_values_def bind_param_def init_params_def NMETA_def)
  next
    case False
    show thesis
    proof (cases ex)
      case Loop_done
      with assms a False e show thesis
        by (intro finished[of len ps']) (auto simp: psql_insert_unfold)
    next
      case (Loop_return x)
      with assms a False e show thesis
        by (intro returned[of len ps']) (auto simp: psql_insert_unfold)
    next
      case Loop_undefined
      with assms a False e show thesis
        by (auto simp: psql_insert_unfold)
    qed
  qed
qed

text \<open>
  Claim C3 says that a row with a value of semantic type \<^verbatim>\<open>long\<close> is accepted and the value
  bound as a 4-byte big-endian INT4 parameter. The encoding block for \<^verbatim>\<open>long\<close> has no
  \<^verbatim>\<open>case OML_LONG_VALUE:\<close> label in front of it, so the type reaches \<^verbatim>\<open>default\<close>: whenever
  \<^verbatim>\<open>psql_insert\<close> returns on a row that holds a \<^verbatim>\<open>long\<close> value, it returns \<^verbatim>\<open>-1\<close> and the
  prepared statement has not been executed.
\<close>

theorem psql_insert_long_rejected:
  assumes "psql_insert env db table sender_id seq_no time_stamp values = Inr r"
    and "v \<in> set values" and "oml_value_get_type v = OML_LONG_VALUE"
  shows "ret r = - 1 \<and> \<not> executed r"
proof -
  from assms(2) obtain k where k: "k < length values" "values ! k = v"
    by (auto simp: in_set_conv_nth)
  from assms(1) show ?thesis
  proof (cases rule: psql_insert_Inr)
    case reopen_failed
    then show ?thesis by (simp add: executed_def)
  next
    case (returned len ps')
    from encode_values_return[OF returned(3)] returned(4) show ?thesis
      by (simp add: executed_def)
  next
    case (finished len ps')
    from encode_values_done[OF finished(3) _ k(1)] k(2) assms(3) show ?thesis by simp
  qed
qed


text \<open>
  Claim C4: when the semantic type of some payload value differs from the type of its schema
  field, \<^verbatim>\<open>psql_insert\<close> returns \<^verbatim>\<open>-1\<close>, the prepared statement is not executed and the scratch
  buffer of that column is left as it was (the value is not encoded under another type);
  hence, in every call that executes the statement, each value has the type of its field.
\<close>

theorem psql_insert_type_mismatch:
  assumes "psql_insert env db table sender_id seq_no time_stamp values = Inr r"
  shows "(\<forall>k<length values.
            oml_value_get_type (values ! k) \<noteq> ftype (sfields (tschema table) ! k) \<longrightarrow>
              ret r = - 1 \<and> \<not> executed r
              \<and> pvalues (thandle (table_after r)) ! (NMETA + k)
                  = pvalues (thandle table) ! (NMETA + k))
       \<and> (executed r \<longrightarrow>
            (\<forall>k<length values. k < nfields (tschema table)
               \<and> oml_value_get_type (values ! k) = ftype (sfields (tschema table) ! k)))"
  using assms
proof (cases rule: psql_insert_Inr)
  case reopen_failed
  from assms have "NMETA + length values = length (pvalues (thandle table))"
    by (auto simp: psql_insert_unfold split: if_splits)
  with reopen_failed show ?thesis by (auto simp: executed_def)
next
  case (returned len ps')
  have nx: "\<not> executed r" using returned(4) by (simp add: executed_def)
  have r1: "ret r = - 1" using encode_values_return[OF returned(3)] .
  have "pvalues (thandle (table_after r)) ! (NMETA + k) = pvalues (thandle table) ! (NMETA + k)"
    if k: "k < length values"
      and mm: "oml_value_get_type (values ! k) \<noteq> ftype (sfields (tschema table) ! k)" for k
  proof -
    from encode_values_mismatch[OF returned(3) _ k] mm
    have "ps' ! (NMETA + k) = meta_bound env table sender_id seq_no time_stamp ! (NMETA + k)"
      by simp
    moreover from encode_values_frame[OF returned(3)]
    have "length ps' = length (pvalues (thandle table))"
      by (simp add: meta_bound_frame)
    moreover have "NMETA + k < length (pvalues (thandle table))"
      using k returned(1) by simp
    ultimately show ?thesis
      using returned(5) meta_bound_frame(2)[of "NMETA + k" table env sender_id seq_no time_stamp]
      by (simp add: with_values_def)
  qed
  with nx r1 show ?thesis by simp
next
  case (finished len ps')
  have "k < nfields (tschema table)
         \<and> oml_value_get_type (values ! k) = ftype (sfields (tschema table) ! k)"
    if "k < length values" for k
    using encode_values_done[OF finished(3) _ that] by (simp add: nfields_def)
  then show ?thesis by auto
qed

text \<open>
  Claim C5: when the clock's second is strictly greater than \<^verbatim>\<open>last_commit\<close>, the transaction
  is reopened first, before any execution of the prepared statement; if that fails the call
  returns \<^verbatim>\<open>-1\<close> (leaving \<^verbatim>\<open>last_commit\<close> alone), otherwise \<^verbatim>\<open>last_commit\<close> becomes that second.
  When the second is not greater, the transaction is not reopened, so there is at most one
  reopening per second.
\<close>

theorem psql_insert_commit:
  assumes "psql_insert env db table sender_id seq_no time_stamp values = Inr r"
  shows "(tv_sec env > last_commit (handle db) \<longrightarrow>
            (dba_reopen_transaction_ret env = - 1 \<longrightarrow>
               ret r = - 1 \<and> calls r = [Dba_reopen_transaction] \<and> db_after r = db)
          \<and> (dba_reopen_transaction_ret env \<noteq> - 1 \<longrightarrow>
               last_commit (handle (db_after r)) = tv_sec env
               \<and> (\<exists>cs. calls r = Dba_reopen_transaction # cs
                        \<and> Dba_reopen_transaction \<notin> set cs)))
       \<and> (tv_sec env \<le> last_commit (handle db) \<longrightarrow>
            Dba_reopen_transaction \<notin> set (calls r) \<and> db_after r = db)"
  using assms
  by (cases rule: psql_insert_Inr) auto

lemma length_htonll: "length (htonll w) = 8"
  by (simp add: htonll_def)

text \<open>
  Claim C2 says that every block of the dispatcher ends after its own encoding, so that a
  \<^verbatim>\<open>uint32\<close> is bound as its value widened to 64 bits and no other encoder touches its buffer.
  The \<^verbatim>\<open>OML_UINT32_VALUE\<close> block has no \<^verbatim>\<open>break\<close>: control falls into the \<^verbatim>\<open>OML_INT64_VALUE\<close>
  block, which encodes the \<^verbatim>\<open>int64\<close> member of the union over it. In every call that executes
  the statement, the eight bytes bound for a \<^verbatim>\<open>uint32\<close> value are the big-endian form of the
  union's \<^verbatim>\<open>int64Value\<close>.
\<close>

theorem psql_insert_uint32_bound:
  assumes "psql_insert env db table sender_id seq_no time_stamp values = Inr r"
    and "executed r" and "k < length values"
    and "oml_value_get_type (values ! k) = OML_UINT32_VALUE"
  shows "\<exists>s n bufs lens fmts.
           last (calls r) = PQexecPrepared s n bufs lens fmts
           \<and> take 8 (bufs ! (NMETA + k))
               = htonll (int64Value (oml_value_get_value (values ! k)))
           \<and> lens ! (NMETA + k) = 8 \<and> fmts ! (NMETA + k) = 1"
  using assms(1)
proof (cases rule: psql_insert_Inr)
  case reopen_failed
  with assms(2) show ?thesis by (simp add: executed_def)
next
  case (returned len ps')
  with assms(2) show ?thesis by (simp add: executed_def split: if_splits)
next
  case (finished len ps')
  from encode_values_encoded[OF finished(3) assms(3)] assms(4)
  obtain l l' where
    "c_switch OML_UINT32_VALUE switch_blocks env (values ! k)
       (l, (meta_bound env table sender_id seq_no time_stamp ! (NMETA + k))
             \<lparr>paramLength := 0, paramFormat := 0\<rparr>) = ((l', ps' ! (NMETA + k)), Break)"
    by auto
  then have p: "ps' ! (NMETA + k) =
      set_binary (psql_set_int64_value (int64Value (oml_value_get_value (values ! k))))
        (set_binary (psql_set_uint32_value (uint32Value (oml_value_get_value (values ! k))))
           ((meta_bound env table sender_id seq_no time_stamp ! (NMETA + k))
              \<lparr>paramLength := 0, paramFormat := 0\<rparr>))"
    by (simp add: c_switch_uint32)
  from encode_values_frame[OF finished(3)] finished(1) assms(3)
  have inb: "NMETA + k < length ps'" by (simp add: meta_bound_frame)
  have "take 8 (pvalue (ps' ! (NMETA + k)))
          = htonll (int64Value (oml_value_get_value (values ! k)))"
    "paramLength (ps' ! (NMETA + k)) = 8" "paramFormat (ps' ! (NMETA + k)) = 1"
    unfolding p
    by (simp_all add: set_binary_def psql_set_int64_value_def psql_set_uint32_value_def
          poke_def length_htonll)
  with inb finished(5) show ?thesis by simp
qed


subsection \<open>The theorems at concrete rows\<close>

lemmas ex_defs = ex_env_def ex_db_def ex_table_def ex_union_def ex_long_def ex_uint32_def
  ex_int32_def ex_int64_def

lemmas insert_defs = psql_insert_def NMETA_def MAX_DIGITS_def init_params_def bind_param_def
  set_binary_def psql_set_int32_value_def psql_set_double_value_def psql_set_int64_value_def
  psql_set_uint32_value_def psql_set_long_value_def poke_def htonl_def htonll_def
  oml_value_get_type_def oml_value_get_value_def with_values_def c_switch_def switch_blocks_def
  entry_def block_defs

lemma ex_insert_long:
  "psql_insert ex_env (ex_db 100) (ex_table OML_LONG_VALUE) 1 7 0 [ex_long] =
     Inr \<lparr>ret = - 1, db_after = ex_db 100,
          table_after = (ex_table OML_LONG_VALUE)\<lparr>thandle := \<lparr>insert_stmt = ''OMLInsert-t'',
            pvalues = [[0, 0, 0, 1], [0, 0, 0, 7], [0, 0, 0, 0, 0, 0, 0, 0],
                       [0, 0, 0, 0, 0, 0, 0, 0], [0, 0, 0, 0, 0, 0, 0, 0]]\<rparr>\<rparr>,
          calls = []\<rparr>"
  by (simp add: insert_defs ex_defs)

theorem psql_insert_long_rejected_witness:
  "\<exists>r. psql_insert ex_env (ex_db 100) (ex_table OML_LONG_VALUE) 1 7 0 [ex_long] = Inr r
       \<and> ex_long \<in> set [ex_long] \<and> oml_value_get_type ex_long = OML_LONG_VALUE
       \<and> ftype (sfields (tschema (ex_table OML_LONG_VALUE)) ! 0) = OML_LONG_VALUE
       \<and> ret r = - 1 \<and> \<not> executed r"
proof -
  have t: "oml_value_get_type ex_long = OML_LONG_VALUE"
    "ftype (sfields (tschema (ex_table OML_LONG_VALUE)) ! 0) = OML_LONG_VALUE"
    by (simp_all add: ex_defs oml_value_get_type_def)
  from psql_insert_long_rejected [OF ex_insert_long, of ex_long] t show ?thesis
    by (simp add: ex_insert_long)
qed

lemma ex_insert_uint32:
  "psql_insert ex_env (ex_db 100) (ex_table OML_UINT32_VALUE) 1 7 0 [ex_uint32] =
     Inr \<lparr>ret = 0, db_after = ex_db 100,
          table_after = (ex_table OML_UINT32_VALUE)\<lparr>thandle := \<lparr>insert_stmt = ''OMLInsert-t'',
            pvalues = [[0, 0, 0, 1], [0, 0, 0, 7], [0, 0, 0, 0, 0, 0, 0, 0],
                       [0, 0, 0, 0, 0, 0, 0, 0], [255, 255, 255, 255, 0, 0, 0, 5]]\<rparr>\<rparr>,
          calls = [PQexecPrepared ''OMLInsert-t'' 5
                     [[0, 0, 0, 1], [0, 0, 0, 7], [0, 0, 0, 0, 0, 0, 0, 0],
                      [0, 0, 0, 0, 0, 0, 0, 0], [255, 255, 255, 255, 0, 0, 0, 5]]
                     [4, 4, 8, 8, 8] [1, 1, 1, 1, 1]]\<rparr>"
  by (simp add: insert_defs ex_defs)

theorem psql_insert_uint32_bound_witness:
  "\<exists>r. psql_insert ex_env (ex_db 100) (ex_table OML_UINT32_VALUE) 1 7 0 [ex_uint32] = Inr r
       \<and> executed r \<and> oml_value_get_type ([ex_uint32] ! 0) = OML_UINT32_VALUE
       \<and> uint32Value (oml_value_get_value ex_uint32) = 5
       \<and> (\<exists>s n bufs lens fmts. last (calls r) = PQexecPrepared s n bufs lens fmts
             \<and> take 8 (bufs ! (NMETA + 0)) = [255, 255, 255, 255, 0, 0, 0, 5]
             \<and> take 8 (bufs ! (NMETA + 0)) \<noteq> htonll 5
             \<and> lens ! (NMETA + 0) = 8 \<and> fmts ! (NMETA + 0) = 1)"
proof -
  have x: "executed \<lparr>ret = 0, db_after = ex_db 100,
          table_after = (ex_table OML_UINT32_VALUE)\<lparr>thandle := \<lparr>insert_stmt = ''OMLInsert-t'',
            pvalues = [[0, 0, 0, 1], [0, 0, 0, 7], [0, 0, 0, 0, 0, 0, 0, 0],
                       [0, 0, 0, 0, 0, 0, 0, 0], [255, 255, 255, 255, 0, 0, 0, 5]]\<rparr>\<rparr>,
          calls = [PQexecPrepared ''OMLInsert-t'' 5
                     [[0, 0, 0, 1], [0, 0, 0, 7], [0, 0, 0, 0, 0, 0, 0, 0],
                      [0, 0, 0, 0, 0, 0, 0, 0], [255, 255, 255, 255, 0, 0, 0, 5]]
                     [4, 4, 8, 8, 8] [1, 1, 1, 1, 1]]\<rparr>"
    by (simp add: executed_def)
  have t: "oml_value_get_type ([ex_uint32] ! 0) = OML_UINT32_VALUE"
    "uint32Value (oml_value_get_value ex_uint32) = 5"
    "htonll (int64Value (oml_value_get_value ([ex_uint32] ! 0))) = [255, 255, 255, 255, 0, 0, 0, 5]"
    "htonll 5 = [0, 0, 0, 0, 0, 0, 0, 5]"
    by (simp_all add: ex_defs oml_value_get_type_def oml_value_get_value_def htonll_def)
  from psql_insert_uint32_bound [OF ex_insert_uint32 x _ t(1)] x t show ?thesis
    by (simp add: ex_insert_uint32)
qed

lemma ex_insert_mismatch:
  "psql_insert ex_env (ex_db 100) (ex_table OML_INT32_VALUE) 1 7 0 [ex_int64] =
     Inr \<lparr>ret = - 1, db_after = ex_db 100,
          table_after = (ex_table OML_INT32_VALUE)\<lparr>thandle := \<lparr>insert_stmt = ''OMLInsert-t'',
            pvalues = [[0, 0, 0, 1], [0, 0, 0, 7], [0, 0, 0, 0, 0, 0, 0, 0],
                       [0, 0, 0, 0, 0, 0, 0, 0], [0, 0, 0, 0, 0, 0, 0, 0]]\<rparr>\<rparr>,
          calls = []\<rparr>"
  by (simp add: insert_defs ex_defs)

lemma ex_insert_int32:
  "psql_insert ex_env (ex_db t) (ex_table OML_INT32_VALUE) 1 7 0 [ex_int32] =
     Inr \<lparr>ret = 0, db_after = ex_db (if 100 > t then 100 else t),
          table_after = (ex_table OML_INT32_VALUE)\<lparr>thandle := \<lparr>insert_stmt = ''OMLInsert-t'',
            pvalues = [[0, 0, 0, 1], [0, 0, 0, 7], [0, 0, 0, 0, 0, 0, 0, 0],
                       [0, 0, 0, 0, 0, 0, 0, 0], [0, 0, 0, 5, 0, 0, 0, 0]]\<rparr>\<rparr>,
          calls = (if 100 > t then [Dba_reopen_transaction] else [])
                  @ [PQexecPrepared ''OMLInsert-t'' 5
                     [[0, 0, 0, 1], [0, 0, 0, 7], [0, 0, 0, 0, 0, 0, 0, 0],
                      [0, 0, 0, 0, 0, 0, 0, 0], [0, 0, 0, 5, 0, 0, 0, 0]]
                     [4, 4, 8, 8, 4] [1, 1, 1, 1, 1]]\<rparr>"
  by (simp add: insert_defs ex_defs)

theorem psql_insert_type_mismatch_witness:
  "(\<exists>r. psql_insert ex_env (ex_db 100) (ex_table OML_INT32_VALUE) 1 7 0 [ex_int64] = Inr r
        \<and> oml_value_get_type ([ex_int64] ! 0)
             \<noteq> ftype (sfields (tschema (ex_table OML_INT32_VALUE)) ! 0)
        \<and> ret r = - 1 \<and> \<not> executed r
        \<and> pvalues (thandle (table_after r)) ! (NMETA + 0)
             = pvalues (thandle (ex_table OML_INT32_VALUE)) ! (NMETA + 0))
   \<and> (\<exists>r. psql_insert ex_env (ex_db 100) (ex_table OML_INT32_VALUE) 1 7 0 [ex_int32] = Inr r
        \<and> executed r
        \<and> oml_value_get_type ([ex_int32] ! 0)
             = ftype (sfields (tschema (ex_table OML_INT32_VALUE)) ! 0))"
proof -
  have m: "oml_value_get_type ([ex_int64] ! 0)
             \<noteq> ftype (sfields (tschema (ex_table OML_INT32_VALUE)) ! 0)"
    by (simp add: ex_defs oml_value_get_type_def)
  have x: "executed \<lparr>ret = 0, db_after = ex_db 100,
          table_after = (ex_table OML_INT32_VALUE)\<lparr>thandle := \<lparr>insert_stmt = ''OMLInsert-t'',
            pvalues = [[0, 0, 0, 1], [0, 0, 0, 7], [0, 0, 0, 0, 0, 0, 0, 0],
                       [0, 0, 0, 0, 0, 0, 0, 0], [0, 0, 0, 5, 0, 0, 0, 0]]\<rparr>\<rparr>,
          calls = [PQexecPrepared ''OMLInsert-t'' 5
                     [[0, 0, 0, 1], [0, 0, 0, 7], [0, 0, 0, 0, 0, 0, 0, 0],
                      [0, 0, 0, 0, 0, 0, 0, 0], [0, 0, 0, 5, 0, 0, 0, 0]]
                     [4, 4, 8, 8, 4] [1, 1, 1, 1, 1]]\<rparr>"
    by (simp add: executed_def)
  from psql_insert_type_mismatch [OF ex_insert_mismatch] m
  have a: "\<exists>r. psql_insert ex_env (ex_db 100) (ex_table OML_INT32_VALUE) 1 7 0 [ex_int64] = Inr r
        \<and> oml_value_get_type ([ex_int64] ! 0)
             \<noteq> ftype (sfields (tschema (ex_table OML_INT32_VALUE)) ! 0)
        \<and> ret r = - 1 \<and> \<not> executed r
        \<and> pvalues (thandle (table_after r)) ! (NMETA + 0)
             = pvalues (thandle (ex_table OML_INT32_VALUE)) ! (NMETA + 0)"
    by (simp add: ex_insert_mismatch)
  from psql_insert_type_mismatch [OF ex_insert_int32 [of 100]] x
  have b: "\<exists>r. psql_insert ex_env (ex_db 100) (ex_table OML_INT32_VALUE) 1 7 0 [ex_int32] = Inr r
        \<and> executed r
        \<and> oml_value_get_type ([ex_int32] ! 0)
             = ftype (sfields (tschema (ex_table OML_INT32_VALUE)) ! 0)"
    by (simp add: ex_insert_int32)
  from a b show ?thesis by blast
qed

lemma ex_insert_reopen_fails:
  "psql_insert (ex_env\<lparr>dba_reopen_transaction_ret := - 1\<rparr>) (ex_db 99)
       (ex_table OML_INT32_VALUE) 1 7 0 [ex_int32] =
     Inr \<lparr>ret = - 1, db_after = ex_db 99,
          table_after = (ex_table OML_INT32_VALUE)\<lparr>thandle := \<lparr>insert_stmt = ''OMLInsert-t'',
            pvalues = [[0, 0, 0, 1], [0, 0, 0, 7], [0, 0, 0, 0, 0, 0, 0, 0],
                       [0, 0, 0, 0, 0, 0, 0, 0], [0, 0, 0, 0, 0, 0, 0, 0]]\<rparr>\<rparr>,
          calls = [Dba_reopen_transaction]\<rparr>"
  by (simp add: insert_defs ex_defs)

theorem psql_insert_commit_witness:
  "(\<exists>r. psql_insert ex_env (ex_db 99) (ex_table OML_INT32_VALUE) 1 7 0 [ex_int32] = Inr r
        \<and> tv_sec ex_env > last_commit (handle (ex_db 99))
        \<and> dba_reopen_transaction_ret ex_env \<noteq> - 1
        \<and> last_commit (handle (db_after r)) = 100
        \<and> (\<exists>cs. calls r = Dba_reopen_transaction # cs \<and> Dba_reopen_transaction \<notin> set cs))
   \<and> (\<exists>r. psql_insert (ex_env\<lparr>dba_reopen_transaction_ret := - 1\<rparr>) (ex_db 99)
             (ex_table OML_INT32_VALUE) 1 7 0 [ex_int32] = Inr r
        \<and> ret r = - 1 \<and> calls r = [Dba_reopen_transaction] \<and> db_after r = ex_db 99)
   \<and> (\<exists>r. psql_insert ex_env (ex_db 100) (ex_table OML_INT32_VALUE) 1 7 0 [ex_int32] = Inr r
        \<and> tv_sec ex_env \<le> last_commit (handle (ex_db 100))
        \<and> Dba_reopen_transaction \<notin> set (calls r) \<and> db_after r = ex_db 100)"
proof -
  have h: "tv_sec ex_env > last_commit (handle (ex_db 99))"
    "dba_reopen_transaction_ret ex_env \<noteq> - 1"
    "tv_sec ex_env \<le> last_commit (handle (ex_db 100))"
    "tv_sec (ex_env\<lparr>dba_reopen_transaction_ret := - 1\<rparr>) > last_commit (handle (ex_db 99))"
    "dba_reopen_transaction_ret (ex_env\<lparr>dba_reopen_transaction_ret := - 1\<rparr>) = - 1"
    by (simp_all add: ex_defs)
  from psql_insert_commit [OF ex_insert_int32 [of 99]] h
  have a: "\<exists>r. psql_insert ex_env (ex_db 99) (ex_table OML_INT32_VALUE) 1 7 0 [ex_int32] = Inr r
        \<and> tv_sec ex_env > last_commit (handle (ex_db 99))
        \<and> dba_reopen_transaction_ret ex_env \<noteq> - 1
        \<and> last_commit (handle (db_after r)) = 100
        \<and> (\<exists>cs. calls r = Dba_reopen_transaction # cs \<and> Dba_reopen_transaction \<notin> set cs)"
    by (simp add: ex_insert_int32) (simp add: ex_defs)
  from psql_insert_commit [OF ex_insert_reopen_fails] h
  have b: "\<exists>r. psql_insert (ex_env\<lparr>dba_reopen_transaction_ret := - 1\<rparr>) (ex_db 99)
             (ex_table OML_INT32_VALUE) 1 7 0 [ex_int32] = Inr r
        \<and> ret r = - 1 \<and> calls r = [Dba_reopen_transaction] \<and> db_after r = ex_db 99"
    by (simp add: ex_insert_reopen_fails)
  from psql_insert_commit [OF ex_insert_int32 [of 100]] h
  have c: "\<exists>r. psql_insert ex_env (ex_db 100) (ex_table OML_INT32_VALUE) 1 7 0 [ex_int32] = Inr r
        \<and> tv_sec ex_env \<le> last_commit (handle (ex_db 100))
        \<and> Dba_reopen_transaction \<notin> set (calls r) \<and> db_after r = ex_db 100"
    by (simp add: ex_insert_int32)
  from a b c show ?thesis by blast
qed


section \<open>Properties of \<^verbatim>\<open>oml_zlib_inf\<close>\<close>

lemmas Z_defs = Z_OK_def Z_STREAM_END_def Z_NEED_DICT_def Z_ERRNO_def Z_STREAM_ERROR_def
  Z_DATA_ERROR_def Z_MEM_ERROR_def

lemma inf_switch_Inr:
  "inf_switch z s = Inr s' \<Longrightarrow>
     inflate_codes s' = inflate_codes s \<and> (iret s' = Z_STREAM_END \<longleftrightarrow> iret s = Z_STREAM_END)"
  by (auto simp: inf_switch_def Let_def Z_defs split: if_splits prod.splits)

lemma inf_switch_Inl: "inf_switch z s = Inl r \<Longrightarrow> r = Z_MEM_ERROR"
  by (auto simp: inf_switch_def Let_def split: if_splits prod.splits)

lemma outer_body_Inl: "outer_body z s = Inl r \<Longrightarrow> ret_tracks s \<Longrightarrow> inf_post r"
  by (auto simp: outer_body_def Let_def ret_tracks_def inf_post_def stream_ended_def
        split: prod.splits if_splits)

lemma outer_body_Inr: "outer_body z s = Inr (pt, s') \<Longrightarrow> ret_tracks s \<Longrightarrow> ret_tracks s'"
  by (auto simp: outer_body_def Let_def ret_tracks_def stream_ended_def
        split: prod.splits if_splits)

lemma inner_body_Inl: "inner_body z s = Inl r \<Longrightarrow> inf_post r"
  by (auto simp: inner_body_def Let_def inf_post_def stream_ended_def
        split: prod.splits if_splits sum.splits dest!: inf_switch_Inl inf_switch_Inr)

lemma inner_body_Inr: "inner_body z s = Inr (pt, s') \<Longrightarrow> ret_tracks s'"
  by (auto simp: inner_body_def Let_def ret_tracks_def stream_ended_def
        split: prod.splits if_splits sum.splits dest!: inf_switch_Inr)

lemma inf_loops_post:
  assumes "inf_loops z pt s = Some r" and "ret_tracks s"
  shows "inf_post r"
proof -
  have "ret_tracks s \<longrightarrow> inf_post r"
  proof (rule inf_loops.raw_induct
      [where P = "\<lambda>z pt s r. ret_tracks s \<longrightarrow> inf_post r" and z = z and pt = pt and s = s
         and y = r])
    show "inf_loops z pt s = Some r" by fact
  next
    fix loops :: "'a zlib \<Rightarrow> loop_point \<Rightarrow> 'a inf_state \<Rightarrow> 'a inf_result option"
      and z pt s r
    assume IH: "\<And>z pt s r. loops z pt s = Some r \<Longrightarrow> ret_tracks s \<longrightarrow> inf_post r"
      and eq: "(case (case pt of Outer_body \<Rightarrow> outer_body z s | Inner_body \<Rightarrow> inner_body z s) of
                  Inl r \<Rightarrow> Some r
                | Inr (pt', s') \<Rightarrow> loops z pt' s') = Some r"
    show "ret_tracks s \<longrightarrow> inf_post r"
    proof
      assume inv: "ret_tracks s"
      show "inf_post r"
      proof (cases pt)
        case Outer_body
        show ?thesis
        proof (cases "outer_body z s")
          case (Inl r')
          with eq Outer_body inv show ?thesis by (auto dest: outer_body_Inl)
        next
          case (Inr ps)
          obtain pt' s' where ps: "ps = (pt', s')" by (cases ps)
          from outer_body_Inr[OF Inr[unfolded ps] inv] have "ret_tracks s'" .
          moreover from eq Outer_body Inr ps have "loops z pt' s' = Some r" by simp
          ultimately show ?thesis using IH by blast
        qed
      next
        case Inner_body
        show ?thesis
        proof (cases "inner_body z s")
          case (Inl r')
          with eq Inner_body show ?thesis by (auto dest: inner_body_Inl)
        next
          case (Inr ps)
          obtain pt' s' where ps: "ps = (pt', s')" by (cases ps)
          from inner_body_Inr[OF Inr[unfolded ps]] have "ret_tracks s'" .
          moreover from eq Inner_body Inr ps have "loops z pt' s' = Some r" by simp
          ultimately show ?thesis using IH by blast
        qed
      qed
    qed
  qed
  with assms(2) show ?thesis by simp
qed

text \<open>
  Claim C8: \<^verbatim>\<open>oml_zlib_inf\<close> returns \<^verbatim>\<open>Z_OK\<close> exactly when it leaves its loops through their end
  and the last code that \<^verbatim>\<open>inflate\<close> gave is \<^verbatim>\<open>Z_STREAM_END\<close>; when it leaves the loops in any
  other way than by a \<^verbatim>\<open>return\<close> inside them, it returns \<^verbatim>\<open>Z_DATA_ERROR\<close>. (The early returns
  give \<^verbatim>\<open>Z_ERRNO\<close>, \<^verbatim>\<open>Z_STREAM_ERROR\<close>, \<^verbatim>\<open>Z_MEM_ERROR\<close> or the failure code of \<^verbatim>\<open>inflateInit2\<close>.)
\<close>

theorem oml_zlib_inf_ok_iff:
  assumes "oml_zlib_inf z src dst = Some r"
  shows "(zret r = Z_OK \<longleftrightarrow> zexit r = Loop_left \<and> stream_ended (final r))
       \<and> (zexit r = Loop_left \<and> \<not> stream_ended (final r) \<longrightarrow> zret r = Z_DATA_ERROR)"
proof -
  obtain c st where init: "inflateInit2 z (OML_ZLIB_WINDOWBITS z) = (c, st)"
    by (cases "inflateInit2 z (OML_ZLIB_WINDOWBITS z)")
  show ?thesis
  proof (cases "c = Z_OK")
    case False
    with assms init show ?thesis by (auto simp: oml_zlib_inf_def Let_def)
  next
    case True
    let ?s = "\<lparr>strm = \<lparr>avail_in = 0, next_in = [], avail_out = 0, out = [], internal = st\<rparr>,
                iret = c, resynced = 0, source = src, dest = dst, inflate_codes = []\<rparr>"
    from assms init True have run: "inf_loops z Outer_body ?s = Some r"
      by (simp add: oml_zlib_inf_def Let_def)
    have "ret_tracks ?s" using True by (simp add: ret_tracks_def stream_ended_def Z_defs)
    with inf_loops_post[OF run] have "inf_post r" by simp
    then show ?thesis
      by (cases "zexit r") (auto simp: inf_post_def Z_defs)
  qed
qed



lemmas toy_defs = toy_zlib_def toy_inflate_def toy_deflate_def toy_step_def toy_init_def
  file_of_def empty_file_def

lemmas inf_defs = oml_zlib_inf_def inf_loops.simps outer_body_def inner_body_def
  inf_switch_def fread_def fwrite_def Z_defs Z_NO_FLUSH_def Let_def

lemma ex_inf_complete:
  "oml_zlib_inf toy_zlib (file_of [1, 5, 1, 6, 1, 7, 0]) empty_file =
     Some \<lparr>zret = 0, zexit = Loop_left,
       final = \<lparr>strm = \<lparr>avail_in = 0, next_in = [], avail_out = 3, out = [7],
                  internal = \<lparr>t_taken = [1, 5, 1, 6, 1, 7, 0], t_given = [5, 6, 7],
                               t_done = True\<rparr>\<rparr>,
         iret = 1, resynced = 0, source = \<lparr>unread = [], rerror_after = None\<rparr>,
         dest = \<lparr>written = [5, 6, 7], werror_after = None\<rparr>,
         inflate_codes = [0, 1]\<rparr>\<rparr>"
  by (simp add: inf_defs toy_defs)

lemma ex_inf_truncated:
  "oml_zlib_inf toy_zlib (file_of [1, 5, 1, 6]) empty_file =
     Some \<lparr>zret = - 3, zexit = Loop_left,
       final = \<lparr>strm = \<lparr>avail_in = 0, next_in = [], avail_out = 2, out = [5, 6],
                  internal = \<lparr>t_taken = [1, 5, 1, 6], t_given = [5, 6],
                               t_done = False\<rparr>\<rparr>,
         iret = 0, resynced = 0, source = \<lparr>unread = [], rerror_after = None\<rparr>,
         dest = \<lparr>written = [5, 6], werror_after = None\<rparr>,
         inflate_codes = [0]\<rparr>\<rparr>"
  by (simp add: inf_defs toy_defs)

theorem oml_zlib_inf_ok_iff_witness:
  "(\<exists>r. oml_zlib_inf toy_zlib (file_of [1, 5, 1, 6, 1, 7, 0]) empty_file = Some r
        \<and> zexit r = Loop_left \<and> stream_ended (final r) \<and> zret r = Z_OK)
   \<and> (\<exists>r. oml_zlib_inf toy_zlib (file_of [1, 5, 1, 6]) empty_file = Some r
        \<and> zexit r = Loop_left \<and> \<not> stream_ended (final r) \<and> zret r = Z_DATA_ERROR)"
  using oml_zlib_inf_ok_iff [OF ex_inf_complete] oml_zlib_inf_ok_iff [OF ex_inf_truncated]
  by (simp add: ex_inf_complete ex_inf_truncated stream_ended_def Z_defs)


section \<open>A round trip through \<^verbatim>\<open>oml_zlib_def\<close> and \<^verbatim>\<open>oml_zlib_inf\<close>\<close>

subsection \<open>Compressing\<close>

lemma def_outer_step:
  assumes chunk: "OML_ZLIB_CHUNKSIZE z > 0" and inv: "def_outer_inv g S s"
  shows "\<exists>s'. def_outer_body z s = Inr (Inner_body, s') \<and> def_inner_inv g S s'
           \<and> (dflush s' = Z_NO_FLUSH \<longrightarrow>
                length (unread (dsource s')) < length (unread (dsource s)))"
proof -
  let ?n = "OML_ZLIB_CHUNKSIZE z"
  let ?U = "unread (dsource s)"
  from inv have noerr: "rerror_after (dsource s) = None"
    by (simp add: def_outer_inv_def Let_def)
  have rd: "fread ?n (dsource s) = (take ?n ?U, False, (dsource s)\<lparr>unread := drop ?n ?U\<rparr>)"
    by (simp add: fread_def noerr)
  show ?thesis
    using inv chunk
    by (auto simp: def_outer_body_def rd Let_def def_inner_inv_def def_outer_inv_def
          feof_after_fread_def Z_FINISH_def Z_NO_FLUSH_def)
qed


lemma deflate_contract_call:
  assumes "deflate_contract z g" "deflating g (internal st)" "\<not> finished g (internal st)"
    "avail_in st = length (next_in st)" "avail_out st > 0" "f = Z_NO_FLUSH \<or> f = Z_FINISH"
    "deflate z st f = (r, st')"
  shows "exchanged g st st'" "deflating g (internal st')" "r \<noteq> Z_STREAM_ERROR"
    "avail_out st' \<noteq> 0 \<longrightarrow> avail_in st' = 0"
    "finished g (internal st') \<longleftrightarrow> r = Z_STREAM_END"
    "r = Z_STREAM_END \<longrightarrow> f = Z_FINISH \<and> avail_in st' = 0
       \<and> codec g (taken g (internal st')) (given g (internal st'))"
    "f = Z_FINISH \<and> avail_out st' \<noteq> 0 \<longrightarrow> r = Z_STREAM_END"
    "avail_out st' = 0 \<and> r \<noteq> Z_STREAM_END \<longrightarrow>
       backlog g (internal st') (next_in st') f < backlog g (internal st) (next_in st) f"
proof -
  from assms(1) have
    "deflating g (internal st) \<and> \<not> finished g (internal st)
         \<and> avail_in st = length (next_in st) \<and> avail_out st > 0
         \<and> (f = Z_NO_FLUSH \<or> f = Z_FINISH) \<and> deflate z st f = (r, st') \<longrightarrow>
           exchanged g st st' \<and> deflating g (internal st') \<and> r \<noteq> Z_STREAM_ERROR
           \<and> (avail_out st' \<noteq> 0 \<longrightarrow> avail_in st' = 0)
           \<and> (finished g (internal st') \<longleftrightarrow> r = Z_STREAM_END)
           \<and> (r = Z_STREAM_END \<longrightarrow>
                f = Z_FINISH \<and> avail_in st' = 0
                \<and> codec g (taken g (internal st')) (given g (internal st')))
           \<and> (f = Z_FINISH \<and> avail_out st' \<noteq> 0 \<longrightarrow> r = Z_STREAM_END)
           \<and> (avail_out st' = 0 \<and> r \<noteq> Z_STREAM_END \<longrightarrow>
                backlog g (internal st') (next_in st') f
                  < backlog g (internal st) (next_in st) f)"
    unfolding deflate_contract_def by blast
  with assms(2-) have *: "exchanged g st st' \<and> deflating g (internal st') \<and> r \<noteq> Z_STREAM_ERROR
           \<and> (avail_out st' \<noteq> 0 \<longrightarrow> avail_in st' = 0)
           \<and> (finished g (internal st') \<longleftrightarrow> r = Z_STREAM_END)
           \<and> (r = Z_STREAM_END \<longrightarrow>
                f = Z_FINISH \<and> avail_in st' = 0
                \<and> codec g (taken g (internal st')) (given g (internal st')))
           \<and> (f = Z_FINISH \<and> avail_out st' \<noteq> 0 \<longrightarrow> r = Z_STREAM_END)
           \<and> (avail_out st' = 0 \<and> r \<noteq> Z_STREAM_END \<longrightarrow>
                backlog g (internal st') (next_in st') f
                  < backlog g (internal st) (next_in st) f)"
    by blast
  from * show "exchanged g st st'" by blast
  from * show "deflating g (internal st')" by blast
  from * show "r \<noteq> Z_STREAM_ERROR" by blast
  from * show "avail_out st' \<noteq> 0 \<longrightarrow> avail_in st' = 0" by blast
  from * show "finished g (internal st') \<longleftrightarrow> r = Z_STREAM_END" by blast
  from * show "r = Z_STREAM_END \<longrightarrow> f = Z_FINISH \<and> avail_in st' = 0
       \<and> codec g (taken g (internal st')) (given g (internal st'))" by blast
  from * show "f = Z_FINISH \<and> avail_out st' \<noteq> 0 \<longrightarrow> r = Z_STREAM_END" by blast
  from * show "avail_out st' = 0 \<and> r \<noteq> Z_STREAM_END \<longrightarrow>
       backlog g (internal st') (next_in st') f < backlog g (internal st) (next_in st) f"
    by blast
qed

lemma deflate_contract_finished:
  assumes "deflate_contract z g" "deflating g (internal st)" "finished g (internal st)"
    "avail_in st = 0" "deflate z st Z_FINISH = (r, st')"
  shows "r = Z_STREAM_END" "st' = st"
  using assms unfolding deflate_contract_def by blast+

lemma def_inner_step:
  assumes con: "deflate_contract z g" and chunk: "OML_ZLIB_CHUNKSIZE z > 0"
    and inv: "def_inner_inv g S s"
  shows "(\<exists>r. def_inner_body z s = Inl r \<and> def_post g S r)
       \<or> (\<exists>s'. def_inner_body z s = Inr (Inner_body, s') \<and> def_inner_inv g S s'
             \<and> def_measure g s' < def_measure g s \<and> dflush s' = dflush s
             \<and> unread (dsource s') = unread (dsource s))
       \<or> (\<exists>s'. def_inner_body z s = Inr (Outer_body, s') \<and> def_outer_inv g S s'
             \<and> dflush s = Z_NO_FLUSH \<and> unread (dsource s') = unread (dsource s))"
proof -
  let ?n = "OML_ZLIB_CHUNKSIZE z"
  let ?st0 = "(dstrm s)\<lparr>avail_out := ?n, out := []\<rparr>"
  let ?d = "internal (dstrm s)"
  obtain r st' where call: "deflate z ?st0 (dflush s) = (r, st')"
    by (cases "deflate z ?st0 (dflush s)")
  from inv have i1: "deflating g ?d" and i2: "avail_in (dstrm s) = length (next_in (dstrm s))"
    and i3: "taken g ?d @ next_in (dstrm s) @ unread (dsource s) = S"
    and i4: "given g ?d = written (ddest s)"
    and i5: "werror_after (ddest s) = None" and i5': "rerror_after (dsource s) = None"
    and i6: "dflush s = Z_NO_FLUSH \<or> dflush s = Z_FINISH"
    and i7: "dflush s = Z_FINISH \<longrightarrow> unread (dsource s) = []"
    and i8: "finished g ?d \<longrightarrow>
               dflush s = Z_FINISH \<and> next_in (dstrm s) = [] \<and> codec g (taken g ?d) (given g ?d)"
    unfolding def_inner_inv_def Let_def by blast+
  have wr: "\<And>bs. fwrite bs (ddest s) = (False, (ddest s)\<lparr>written := written (ddest s) @ bs\<rparr>)"
    by (simp add: fwrite_def i5)
  let ?w = "\<lambda>st'. (ddest s)\<lparr>written := written (ddest s) @ take (?n - avail_out st') (out st')\<rparr>"
  have body_eq: "def_inner_body z s =
      (if r = Z_STREAM_ERROR then Inl \<lparr>def_ret = r, def_final = s\<lparr>dstrm := st', dret := r\<rparr>\<rparr>
       else if avail_out st' = 0 then Inr (Inner_body, s\<lparr>dstrm := st', dret := r, ddest := ?w st'\<rparr>)
       else if avail_in st' \<noteq> 0
       then Inl \<lparr>def_ret = Z_STREAM_ERROR, def_final = s\<lparr>dstrm := st', dret := r, ddest := ?w st'\<rparr>\<rparr>
       else if dflush s \<noteq> Z_FINISH then Inr (Outer_body, s\<lparr>dstrm := st', dret := r, ddest := ?w st'\<rparr>)
       else if r \<noteq> Z_STREAM_END
       then Inl \<lparr>def_ret = Z_STREAM_ERROR, def_final = s\<lparr>dstrm := st', dret := r, ddest := ?w st'\<rparr>\<rparr>
       else Inl \<lparr>def_ret = Z_OK, def_final = s\<lparr>dstrm := st', dret := r, ddest := ?w st'\<rparr>\<rparr>)"
    by (simp add: def_inner_body_def Let_def call wr)
  show ?thesis
  proof (cases "finished g ?d")
    case True
    with i8 i2 have f: "dflush s = Z_FINISH" and e: "next_in (dstrm s) = []"
      and a: "avail_in (dstrm s) = 0" and c: "codec g (taken g ?d) (given g ?d)"
      by simp_all
    have "deflating g (internal ?st0)" "finished g (internal ?st0)" "avail_in ?st0 = 0"
      using i1 True a by simp_all
    from deflate_contract_finished [OF con this call [unfolded f]]
    have r: "r = Z_STREAM_END" and st: "st' = ?st0" .
    from i3 e i7 f have S: "taken g ?d = S" by simp
    have "def_inner_body z s
            = Inl \<lparr>def_ret = Z_OK,
                   def_final = s\<lparr>dstrm := ?st0, dret := Z_STREAM_END,
                                 ddest := (ddest s)\<lparr>written := written (ddest s) @ []\<rparr>\<rparr>\<rparr>"
      using chunk a f by (simp add: body_eq r st Z_defs)
    moreover have "def_post g S \<lparr>def_ret = Z_OK,
                   def_final = s\<lparr>dstrm := ?st0, dret := Z_STREAM_END,
                                 ddest := (ddest s)\<lparr>written := written (ddest s) @ []\<rparr>\<rparr>\<rparr>"
      using c S i4 by (simp add: def_post_def)
    ultimately show ?thesis by blast
  next
    case False
    have pre: "deflating g (internal ?st0)" "\<not> finished g (internal ?st0)"
      "avail_in ?st0 = length (next_in ?st0)" "avail_out ?st0 > 0"
      using i1 False i2 chunk by simp_all
    note facts = deflate_contract_call [OF con pre i6 call]
    have ex: "exchanged g ?st0 st'" and dfl: "deflating g (internal st')"
      and ne: "r \<noteq> Z_STREAM_ERROR"
      and room: "avail_out st' \<noteq> 0 \<longrightarrow> avail_in st' = 0"
      and fin: "finished g (internal st') \<longleftrightarrow> r = Z_STREAM_END"
      and ended: "r = Z_STREAM_END \<longrightarrow> dflush s = Z_FINISH \<and> avail_in st' = 0
                    \<and> codec g (taken g (internal st')) (given g (internal st'))"
      and last: "dflush s = Z_FINISH \<and> avail_out st' \<noteq> 0 \<longrightarrow> r = Z_STREAM_END"
      and less: "avail_out st' = 0 \<and> r \<noteq> Z_STREAM_END \<longrightarrow>
                   backlog g (internal st') (next_in st') (dflush s)
                     < backlog g ?d (next_in (dstrm s)) (dflush s)"
      using facts by simp_all
    from ex obtain k p where k: "k \<le> length (next_in (dstrm s))"
      and ni: "next_in st' = drop k (next_in (dstrm s))"
      and ai: "avail_in st' = length (next_in st')"
      and tk: "taken g (internal st') = taken g ?d @ take k (next_in (dstrm s))"
      and lp: "length p \<le> ?n" and ou: "out st' = p"
      and ao: "avail_out st' = ?n - length p"
      and gv: "given g (internal st') = given g ?d @ p"
      unfolding exchanged_def by auto
    have have_p: "take (?n - avail_out st') (out st') = p"
      using lp by (simp add: ao ou)
    have full_p: "avail_out st' = 0 \<Longrightarrow> take ?n (out st') = p"
      using lp by (simp add: ou)
    let ?s' = "s\<lparr>dstrm := st', dret := r,
                 ddest := (ddest s)\<lparr>written := written (ddest s) @ p\<rparr>\<rparr>"
    have whole: "taken g (internal st') @ next_in st' @ unread (dsource s) = S"
    proof -
      have "take k (next_in (dstrm s)) @ drop k (next_in (dstrm s)) = next_in (dstrm s)"
        by (rule append_take_drop_id)
      then have "taken g (internal st') @ next_in st' = taken g ?d @ next_in (dstrm s)"
        by (simp add: tk ni)
      then have "(taken g (internal st') @ next_in st') @ unread (dsource s) = S"
        using i3 by simp
      then show ?thesis by simp
    qed
    show ?thesis
    proof (cases "avail_out st' = 0")
      case True
      have body: "def_inner_body z s = Inr (Inner_body, ?s')"
        using ne True by (simp add: body_eq full_p)
      have inv': "def_inner_inv g S ?s'"
        using dfl ai whole gv i4 i5 i5' i6 i7 fin ended
        by (auto simp: def_inner_inv_def Let_def)
      have "def_measure g ?s' < def_measure g s"
        using False fin less True by (auto simp: def_measure_def)
      with body inv' show ?thesis by simp
    next
      case room': False
      with room ai have empty: "next_in st' = []" and a0: "avail_in st' = 0" by auto
      show ?thesis
      proof (cases "dflush s = Z_FINISH")
        case True
        with last room' have r: "r = Z_STREAM_END" by simp
        have body: "def_inner_body z s = Inl \<lparr>def_ret = Z_OK, def_final = ?s'\<rparr>"
          using room' a0 True r ne by (simp add: body_eq have_p)
        from whole empty i7 True have "taken g (internal st') = S" by simp
        with ended r gv i4 have "def_post g S \<lparr>def_ret = Z_OK, def_final = ?s'\<rparr>"
          by (simp add: def_post_def)
        with body show ?thesis by blast
      next
        case nf: False
        with i6 have f: "dflush s = Z_NO_FLUSH" by simp
        have body: "def_inner_body z s = Inr (Outer_body, ?s')"
          using room' a0 nf ne by (simp add: body_eq have_p)
        from ended nf fin have "\<not> finished g (internal st')" by auto
        with dfl whole empty gv i4 i5 i5' have "def_outer_inv g S ?s'"
          by (simp add: def_outer_inv_def Let_def)
        with body f show ?thesis by simp
      qed
    qed
  qed
qed


lemma def_inner_run:
  assumes con: "deflate_contract z g" and chunk: "OML_ZLIB_CHUNKSIZE z > 0"
  shows "def_inner_inv g S s \<Longrightarrow>
     (\<exists>r. def_loops z Inner_body s = Some r \<and> def_post g S r)
     \<or> (\<exists>s'. def_loops z Inner_body s = def_loops z Outer_body s' \<and> def_outer_inv g S s'
           \<and> dflush s = Z_NO_FLUSH \<and> unread (dsource s') = unread (dsource s))"
proof (induction "def_measure g s" arbitrary: s rule: less_induct)
  case less
  from def_inner_step [OF con chunk less.prems]
  consider (left) r where "def_inner_body z s = Inl r" "def_post g S r"
    | (again) s' where "def_inner_body z s = Inr (Inner_body, s')" "def_inner_inv g S s'"
        "def_measure g s' < def_measure g s" "dflush s' = dflush s"
        "unread (dsource s') = unread (dsource s)"
    | (out) s' where "def_inner_body z s = Inr (Outer_body, s')" "def_outer_inv g S s'"
        "dflush s = Z_NO_FLUSH" "unread (dsource s') = unread (dsource s)"
    by blast
  then show ?case
  proof cases
    case left
    then have "def_loops z Inner_body s = Some r"
      by (subst def_loops.simps) simp
    with left show ?thesis by blast
  next
    case again
    have eq: "def_loops z Inner_body s = def_loops z Inner_body s'"
      by (subst def_loops.simps) (simp add: again(1))
    from less.hyps [OF again(3) again(2)] show ?thesis
      unfolding eq again(4) again(5) .
  next
    case out
    have "def_loops z Inner_body s = def_loops z Outer_body s'"
      by (subst def_loops.simps) (simp add: out(1))
    with out show ?thesis by blast
  qed
qed

lemma def_outer_run:
  assumes con: "deflate_contract z g" and chunk: "OML_ZLIB_CHUNKSIZE z > 0"
  shows "def_outer_inv g S s \<Longrightarrow> \<exists>r. def_loops z Outer_body s = Some r \<and> def_post g S r"
proof (induction "length (unread (dsource s))" arbitrary: s rule: less_induct)
  case less
  from def_outer_step [OF chunk less.prems]
  obtain s1 where body: "def_outer_body z s = Inr (Inner_body, s1)"
    and inv1: "def_inner_inv g S s1"
    and shorter: "dflush s1 = Z_NO_FLUSH \<longrightarrow>
                    length (unread (dsource s1)) < length (unread (dsource s))"
    by blast
  have eq: "def_loops z Outer_body s = def_loops z Inner_body s1"
    by (subst def_loops.simps) (simp add: body)
  from def_inner_run [OF con chunk inv1]
  consider (left) r where "def_loops z Inner_body s1 = Some r" "def_post g S r"
    | (out) s' where "def_loops z Inner_body s1 = def_loops z Outer_body s'"
        "def_outer_inv g S s'" "dflush s1 = Z_NO_FLUSH"
        "unread (dsource s') = unread (dsource s1)"
    by blast
  then show ?case
  proof cases
    case left
    with eq show ?thesis by simp
  next
    case out
    with shorter have "length (unread (dsource s')) < length (unread (dsource s))" by simp
    from less.hyps [OF this out(2)] show ?thesis by (simp add: eq out(1))
  qed
qed

lemma oml_zlib_def_correct:
  assumes "zlib_contract z g level"
  shows "\<exists>r. oml_zlib_def z (file_of S) empty_file level = Some r \<and> def_post g S r"
proof -
  from assms have con: "deflate_contract z g" and chunk: "OML_ZLIB_CHUNKSIZE z > 0"
    by (simp_all add: zlib_contract_def)
  from assms obtain d0 where init: "deflateInit2 z level (OML_ZLIB_WINDOWBITS z) = (Z_OK, d0)"
    and d0: "deflating g d0" "\<not> finished g d0" "taken g d0 = []" "given g d0 = []"
    unfolding zlib_contract_def by blast
  let ?s = "\<lparr>dstrm = \<lparr>avail_in = 0, next_in = [], avail_out = 0, out = [], internal = d0\<rparr>,
             dret = Z_OK, dflush = Z_NO_FLUSH, dsource = file_of S, ddest = empty_file\<rparr>"
  have "def_outer_inv g S ?s"
    using d0 by (simp add: def_outer_inv_def file_of_def empty_file_def)
  from def_outer_run [OF con chunk this] show ?thesis
    by (simp add: oml_zlib_def_def init)
qed

subsection \<open>Decompressing\<close>

lemma inflate_contract_call:
  assumes "inflate_contract z g" "codec g S C" "inflating g S C (internal st)"
    "\<not> finished g (internal st)" "avail_in st = length (next_in st)" "avail_out st > 0"
    "taken g (internal st) @ next_in st @ rest = C" "inflate z st Z_NO_FLUSH = (r, st')"
  shows "exchanged g st st'" "inflating g S C (internal st')"
    "r \<noteq> Z_STREAM_ERROR" "r \<noteq> Z_NEED_DICT" "r \<noteq> Z_DATA_ERROR" "r \<noteq> Z_MEM_ERROR"
    "finished g (internal st') \<longleftrightarrow> r = Z_STREAM_END"
    "r = Z_STREAM_END \<longrightarrow> taken g (internal st') = C \<and> given g (internal st') = S"
    "avail_out st' \<noteq> 0 \<and> r \<noteq> Z_STREAM_END \<longrightarrow>
       avail_in st' = 0 \<and> taken g (internal st') \<noteq> C"
    "avail_out st' = 0 \<and> r \<noteq> Z_STREAM_END \<longrightarrow>
       backlog g (internal st') (next_in st') Z_NO_FLUSH
         < backlog g (internal st) (next_in st) Z_NO_FLUSH"
proof -
  from assms(1) have
    "codec g S C \<and> inflating g S C (internal st) \<and> \<not> finished g (internal st)
         \<and> avail_in st = length (next_in st) \<and> avail_out st > 0
         \<and> taken g (internal st) @ next_in st @ rest = C
         \<and> inflate z st Z_NO_FLUSH = (r, st') \<longrightarrow>
           exchanged g st st' \<and> inflating g S C (internal st')
           \<and> r \<noteq> Z_STREAM_ERROR \<and> r \<noteq> Z_NEED_DICT \<and> r \<noteq> Z_DATA_ERROR \<and> r \<noteq> Z_MEM_ERROR
           \<and> (finished g (internal st') \<longleftrightarrow> r = Z_STREAM_END)
           \<and> (r = Z_STREAM_END \<longrightarrow>
                taken g (internal st') = C \<and> given g (internal st') = S)
           \<and> (avail_out st' \<noteq> 0 \<and> r \<noteq> Z_STREAM_END \<longrightarrow>
                avail_in st' = 0 \<and> taken g (internal st') \<noteq> C)
           \<and> (avail_out st' = 0 \<and> r \<noteq> Z_STREAM_END \<longrightarrow>
                backlog g (internal st') (next_in st') Z_NO_FLUSH
                  < backlog g (internal st) (next_in st) Z_NO_FLUSH)"
    unfolding inflate_contract_def by blast
  with assms(2-) have *: "exchanged g st st' \<and> inflating g S C (internal st')
           \<and> r \<noteq> Z_STREAM_ERROR \<and> r \<noteq> Z_NEED_DICT \<and> r \<noteq> Z_DATA_ERROR \<and> r \<noteq> Z_MEM_ERROR
           \<and> (finished g (internal st') \<longleftrightarrow> r = Z_STREAM_END)
           \<and> (r = Z_STREAM_END \<longrightarrow>
                taken g (internal st') = C \<and> given g (internal st') = S)
           \<and> (avail_out st' \<noteq> 0 \<and> r \<noteq> Z_STREAM_END \<longrightarrow>
                avail_in st' = 0 \<and> taken g (internal st') \<noteq> C)
           \<and> (avail_out st' = 0 \<and> r \<noteq> Z_STREAM_END \<longrightarrow>
                backlog g (internal st') (next_in st') Z_NO_FLUSH
                  < backlog g (internal st) (next_in st) Z_NO_FLUSH)"
    by blast
  from * show "exchanged g st st'" by blast
  from * show "inflating g S C (internal st')" by blast
  from * show "r \<noteq> Z_STREAM_ERROR" by blast
  from * show "r \<noteq> Z_NEED_DICT" by blast
  from * show "r \<noteq> Z_DATA_ERROR" by blast
  from * show "r \<noteq> Z_MEM_ERROR" by blast
  from * show "finished g (internal st') \<longleftrightarrow> r = Z_STREAM_END" by blast
  from * show "r = Z_STREAM_END \<longrightarrow> taken g (internal st') = C \<and> given g (internal st') = S"
    by blast
  from * show "avail_out st' \<noteq> 0 \<and> r \<noteq> Z_STREAM_END \<longrightarrow>
       avail_in st' = 0 \<and> taken g (internal st') \<noteq> C" by blast
  from * show "avail_out st' = 0 \<and> r \<noteq> Z_STREAM_END \<longrightarrow>
       backlog g (internal st') (next_in st') Z_NO_FLUSH
         < backlog g (internal st) (next_in st) Z_NO_FLUSH" by blast
qed

lemma inflate_contract_finished:
  assumes "inflate_contract z g" "inflating g S C (internal st)" "finished g (internal st)"
    "inflate z st Z_NO_FLUSH = (r, st')"
  shows "r = Z_STREAM_END" "st' = st"
  using assms unfolding inflate_contract_def by blast+

lemma inf_switch_plain:
  "iret s \<noteq> Z_NEED_DICT \<Longrightarrow> iret s \<noteq> Z_DATA_ERROR \<Longrightarrow> iret s \<noteq> Z_MEM_ERROR \<Longrightarrow>
     inf_switch z s = Inr s"
  by (simp add: inf_switch_def)

lemma inf_outer_step:
  assumes chunk: "OML_ZLIB_CHUNKSIZE z > 0" and inv: "inf_outer_inv g S C s"
  shows "\<exists>s'. outer_body z s = Inr (Inner_body, s') \<and> inf_inner_inv g S C s'
           \<and> length (unread (source s')) < length (unread (source s))"
proof -
  let ?n = "OML_ZLIB_CHUNKSIZE z"
  let ?U = "unread (source s)"
  from inv have noerr: "rerror_after (source s) = None" and ne: "?U \<noteq> []"
    by (auto simp: inf_outer_inv_def Let_def)
  have rd: "fread ?n (source s) = (take ?n ?U, False, (source s)\<lparr>unread := drop ?n ?U\<rparr>)"
    by (simp add: fread_def noerr)
  show ?thesis
    using inv chunk ne
    by (auto simp: outer_body_def rd Let_def inf_inner_inv_def inf_outer_inv_def)
qed

lemma inf_inner_step:
  assumes con: "inflate_contract z g" and chunk: "OML_ZLIB_CHUNKSIZE z > 0"
    and cod: "codec g S C" and inv: "inf_inner_inv g S C s"
  shows "(\<exists>r. inner_body z s = Inl r \<and> inf_done S r)
       \<or> (\<exists>s'. inner_body z s = Inr (Inner_body, s') \<and> inf_inner_inv g S C s'
             \<and> inf_measure g s' < inf_measure g s
             \<and> unread (source s') = unread (source s))
       \<or> (\<exists>s'. inner_body z s = Inr (Outer_body, s') \<and> inf_outer_inv g S C s'
             \<and> unread (source s') = unread (source s))"
proof -
  let ?n = "OML_ZLIB_CHUNKSIZE z"
  let ?st0 = "(strm s)\<lparr>avail_out := ?n, out := []\<rparr>"
  let ?d = "internal (strm s)"
  obtain r st' where call: "inflate z ?st0 Z_NO_FLUSH = (r, st')"
    by (cases "inflate z ?st0 Z_NO_FLUSH")
  from inv have i1: "inflating g S C ?d" and i2: "avail_in (strm s) = length (next_in (strm s))"
    and i3: "taken g ?d @ next_in (strm s) @ unread (source s) = C"
    and i4: "given g ?d = written (dest s)" and i0: "resynced s = 0"
    and i5: "werror_after (dest s) = None" and i5': "rerror_after (source s) = None"
    and i8: "finished g ?d \<longrightarrow> given g ?d = S"
    unfolding inf_inner_inv_def Let_def by blast+
  have wr: "\<And>bs. fwrite bs (dest s) = (False, (dest s)\<lparr>written := written (dest s) @ bs\<rparr>)"
    by (simp add: fwrite_def i5)
  let ?w = "\<lambda>st'. (dest s)\<lparr>written := written (dest s) @ take (?n - avail_out st') (out st')\<rparr>"
  let ?s' = "s\<lparr>strm := st', iret := r, inflate_codes := inflate_codes s @ [r],
               dest := ?w st'\<rparr>"
  have body_eq: "r \<noteq> Z_STREAM_ERROR \<Longrightarrow> r \<noteq> Z_NEED_DICT \<Longrightarrow> r \<noteq> Z_DATA_ERROR \<Longrightarrow>
      r \<noteq> Z_MEM_ERROR \<Longrightarrow>
      inner_body z s =
      (if avail_out st' = 0 then Inr (Inner_body, ?s')
       else if r \<noteq> Z_STREAM_END then Inr (Outer_body, ?s')
       else Inl \<lparr>zret = Z_OK, zexit = Loop_left, final = ?s'\<rparr>)"
    by (simp add: inner_body_def Let_def i0 call wr inf_switch_plain)
  show ?thesis
  proof (cases "finished g ?d")
    case True
    have "inflating g S C (internal ?st0)" "finished g (internal ?st0)"
      using i1 True by simp_all
    from inflate_contract_finished [OF con this call]
    have r: "r = Z_STREAM_END" and st: "st' = ?st0" .
    have "inner_body z s = Inl \<lparr>zret = Z_OK, zexit = Loop_left, final = ?s'\<rparr>"
      using chunk by (subst body_eq) (simp_all add: r st Z_defs)
    moreover have "inf_done S \<lparr>zret = Z_OK, zexit = Loop_left, final = ?s'\<rparr>"
      using i8 True i4 by (simp add: inf_done_def st)
    ultimately show ?thesis by blast
  next
    case False
    have pre: "inflating g S C (internal ?st0)" "\<not> finished g (internal ?st0)"
      "avail_in ?st0 = length (next_in ?st0)" "avail_out ?st0 > 0"
      "taken g (internal ?st0) @ next_in ?st0 @ unread (source s) = C"
      using i1 False i2 chunk i3 by simp_all
    note facts = inflate_contract_call [OF con cod pre call]
    have ex: "exchanged g ?st0 st'" and infl: "inflating g S C (internal st')"
      and fin: "finished g (internal st') \<longleftrightarrow> r = Z_STREAM_END"
      and ended: "r = Z_STREAM_END \<longrightarrow> taken g (internal st') = C \<and> given g (internal st') = S"
      and room: "avail_out st' \<noteq> 0 \<and> r \<noteq> Z_STREAM_END \<longrightarrow>
                   avail_in st' = 0 \<and> taken g (internal st') \<noteq> C"
      and less: "avail_out st' = 0 \<and> r \<noteq> Z_STREAM_END \<longrightarrow>
                   backlog g (internal st') (next_in st') Z_NO_FLUSH
                     < backlog g ?d (next_in (strm s)) Z_NO_FLUSH"
      using facts by simp_all
    have body: "inner_body z s =
      (if avail_out st' = 0 then Inr (Inner_body, ?s')
       else if r \<noteq> Z_STREAM_END then Inr (Outer_body, ?s')
       else Inl \<lparr>zret = Z_OK, zexit = Loop_left, final = ?s'\<rparr>)"
      using facts(3-6) by (rule body_eq)
    from ex obtain k p where k: "k \<le> length (next_in (strm s))"
      and ni: "next_in st' = drop k (next_in (strm s))"
      and ai: "avail_in st' = length (next_in st')"
      and tk: "taken g (internal st') = taken g ?d @ take k (next_in (strm s))"
      and lp: "length p \<le> ?n" and ou: "out st' = p"
      and ao: "avail_out st' = ?n - length p"
      and gv: "given g (internal st') = given g ?d @ p"
      unfolding exchanged_def by auto
    have have_p: "take (?n - avail_out st') (out st') = p"
      using lp by (simp add: ao ou)
    have whole: "taken g (internal st') @ next_in st' @ unread (source s) = C"
    proof -
      have "take k (next_in (strm s)) @ drop k (next_in (strm s)) = next_in (strm s)"
        by (rule append_take_drop_id)
      then have "taken g (internal st') @ next_in st' = taken g ?d @ next_in (strm s)"
        by (simp add: tk ni)
      then have "(taken g (internal st') @ next_in st') @ unread (source s) = C"
        using i3 by simp
      then show ?thesis by simp
    qed
    show ?thesis
    proof (cases "avail_out st' = 0")
      case True
      have inv': "inf_inner_inv g S C ?s'"
        using infl ai whole gv i4 i5 i5' i0 fin ended
        by (auto simp: inf_inner_inv_def Let_def have_p)
      have "inf_measure g ?s' < inf_measure g s"
        using False fin less True by (auto simp: inf_measure_def)
      with body True inv' show ?thesis by simp
    next
      case room': False
      show ?thesis
      proof (cases "r = Z_STREAM_END")
        case True
        with ended gv i4 have "inf_done S \<lparr>zret = Z_OK, zexit = Loop_left, final = ?s'\<rparr>"
          by (simp add: inf_done_def have_p)
        with body room' True show ?thesis by simp
      next
        case nf: False
        with room room' ai have empty: "next_in st' = []"
          and notall: "taken g (internal st') \<noteq> C" by auto
        from nf fin have "\<not> finished g (internal st')" by simp
        with infl whole empty notall gv i4 i5 i5' i0 have "inf_outer_inv g S C ?s'"
          by (simp add: inf_outer_inv_def Let_def have_p)
        with body room' nf show ?thesis by simp
      qed
    qed
  qed
qed

lemma inf_inner_run:
  assumes con: "inflate_contract z g" and chunk: "OML_ZLIB_CHUNKSIZE z > 0"
    and cod: "codec g S C"
  shows "inf_inner_inv g S C s \<Longrightarrow>
     (\<exists>r. inf_loops z Inner_body s = Some r \<and> inf_done S r)
     \<or> (\<exists>s'. inf_loops z Inner_body s = inf_loops z Outer_body s' \<and> inf_outer_inv g S C s'
           \<and> unread (source s') = unread (source s))"
proof (induction "inf_measure g s" arbitrary: s rule: less_induct)
  case less
  from inf_inner_step [OF con chunk cod less.prems]
  consider (left) r where "inner_body z s = Inl r" "inf_done S r"
    | (again) s' where "inner_body z s = Inr (Inner_body, s')" "inf_inner_inv g S C s'"
        "inf_measure g s' < inf_measure g s" "unread (source s') = unread (source s)"
    | (out) s' where "inner_body z s = Inr (Outer_body, s')" "inf_outer_inv g S C s'"
        "unread (source s') = unread (source s)"
    by blast
  then show ?case
  proof cases
    case left
    then have "inf_loops z Inner_body s = Some r"
      by (subst inf_loops.simps) simp
    with left show ?thesis by blast
  next
    case again
    have eq: "inf_loops z Inner_body s = inf_loops z Inner_body s'"
      by (subst inf_loops.simps) (simp add: again(1))
    from less.hyps [OF again(3) again(2)] show ?thesis
      unfolding eq again(4) .
  next
    case out
    have "inf_loops z Inner_body s = inf_loops z Outer_body s'"
      by (subst inf_loops.simps) (simp add: out(1))
    with out show ?thesis by blast
  qed
qed

lemma inf_outer_run:
  assumes con: "inflate_contract z g" and chunk: "OML_ZLIB_CHUNKSIZE z > 0"
    and cod: "codec g S C"
  shows "inf_outer_inv g S C s \<Longrightarrow> \<exists>r. inf_loops z Outer_body s = Some r \<and> inf_done S r"
proof (induction "length (unread (source s))" arbitrary: s rule: less_induct)
  case less
  from inf_outer_step [OF chunk less.prems]
  obtain s1 where body: "outer_body z s = Inr (Inner_body, s1)"
    and inv1: "inf_inner_inv g S C s1"
    and shorter: "length (unread (source s1)) < length (unread (source s))"
    by blast
  have eq: "inf_loops z Outer_body s = inf_loops z Inner_body s1"
    by (subst inf_loops.simps) (simp add: body)
  from inf_inner_run [OF con chunk cod inv1]
  consider (left) r where "inf_loops z Inner_body s1 = Some r" "inf_done S r"
    | (out) s' where "inf_loops z Inner_body s1 = inf_loops z Outer_body s'"
        "inf_outer_inv g S C s'" "unread (source s') = unread (source s1)"
    by blast
  then show ?case
  proof cases
    case left
    with eq show ?thesis by simp
  next
    case out
    with shorter have "length (unread (source s')) < length (unread (source s))" by simp
    from less.hyps [OF this out(2)] show ?thesis by (simp add: eq out(1))
  qed
qed

lemma oml_zlib_inf_correct:
  assumes "zlib_contract z g level" and cod: "codec g S C"
  shows "\<exists>r. oml_zlib_inf z (file_of C) empty_file = Some r \<and> inf_done S r"
proof -
  from assms have con: "inflate_contract z g" and chunk: "OML_ZLIB_CHUNKSIZE z > 0"
    and ne: "C \<noteq> []"
    by (auto simp: zlib_contract_def)
  from assms(1) obtain i0 where init: "inflateInit2 z (OML_ZLIB_WINDOWBITS z) = (Z_OK, i0)"
    and i0: "\<forall>S C. codec g S C \<longrightarrow> inflating g S C i0" "\<not> finished g i0"
      "taken g i0 = []" "given g i0 = []"
    unfolding zlib_contract_def by blast
  let ?s = "\<lparr>strm = \<lparr>avail_in = 0, next_in = [], avail_out = 0, out = [], internal = i0\<rparr>,
             iret = Z_OK, resynced = 0, source = file_of C, dest = empty_file,
             inflate_codes = []\<rparr>"
  have "inf_outer_inv g S C ?s"
    using i0 cod ne by (auto simp: inf_outer_inv_def file_of_def empty_file_def)
  from inf_outer_run [OF con chunk cod this] show ?thesis
    by (simp add: oml_zlib_inf_def init)
qed


subsection \<open>The stand-in library keeps to what the helpers rely on\<close>

lemma length_toy_enc: "length (toy_enc x) = 2 * length x"
  by (induction x) simp_all

lemma toy_enc_append: "toy_enc (a @ b) = toy_enc a @ toy_enc b"
  by (induction a) simp_all

lemma toy_prefix:
  "P @ rest = toy_enc S @ [0] \<Longrightarrow>
     toy_wellformed P \<and> toy_dec P = take (length P div 2) S \<and> (toy_complete P \<longleftrightarrow> rest = [])"
proof (induction S arbitrary: P)
  case Nil
  then show ?case by (cases P) auto
next
  case (Cons b S)
  show ?case
  proof (cases P)
    case Nil
    with Cons.prems show ?thesis by auto
  next
    case P1: (Cons t P')
    with Cons.prems have t: "t = 1" and P': "P' @ rest = b # toy_enc S @ [0]" by simp_all
    show ?thesis
    proof (cases P')
      case Nil
      with P1 t P' show ?thesis by auto
    next
      case (Cons b' P'')
      with P' have b': "b' = b" and P'': "P'' @ rest = toy_enc S @ [0]" by simp_all
      from Cons.IH [OF P''] show ?thesis by (simp add: P1 Cons t b')
    qed
  qed
qed

lemma toy_dec_enc: "toy_dec (toy_enc S @ [0]) = S"
  using toy_prefix [of "toy_enc S @ [0]" "[]" S] by (simp add: length_toy_enc)

lemma toy_complete_enc: "toy_complete (toy_enc S @ [0])"
  using toy_prefix [of "toy_enc S @ [0]" "[]" S] by simp

lemma toy_step_eq:
  assumes "t_given (internal st) @ R = A"
  shows "toy_step st A lc =
     (if lc \<and> length R \<le> avail_out st then Z_STREAM_END else Z_OK,
      st\<lparr>avail_in := 0, next_in := [], avail_out := avail_out st - length (take (avail_out st) R),
         out := out st @ take (avail_out st) R,
         internal := \<lparr>t_taken = t_taken (internal st) @ next_in st,
                      t_given = t_given (internal st) @ take (avail_out st) R,
                      t_done = (lc \<and> length R \<le> avail_out st)\<rparr>\<rparr>)"
proof -
  have "drop (length (t_given (internal st))) A = R" using assms by auto
  moreover have "t_given (internal st) @ take (avail_out st) R = A \<longleftrightarrow> length R \<le> avail_out st"
    using assms by (auto simp: take_all_iff)
  moreover have "length A - length (t_given (internal st)) = length R"
    using assms by auto
  ultimately show ?thesis by (simp add: toy_step_def Let_def)
qed

lemma toy_exchanged:
  assumes "avail_in st = length (next_in st)"
  shows "exchanged toy_views st
     (st\<lparr>avail_in := 0, next_in := [], avail_out := avail_out st - length (take (avail_out st) R),
         out := out st @ take (avail_out st) R,
         internal := \<lparr>t_taken = t_taken (internal st) @ next_in st,
                      t_given = t_given (internal st) @ take (avail_out st) R,
                      t_done = b\<rparr>\<rparr>)"
  unfolding exchanged_def
  by (rule exI [of _ "length (next_in st)"], rule exI [of _ "take (avail_out st) R"])
     (simp add: toy_views_def)

lemma toy_deflate_call:
  "deflating toy_views (internal st) \<and> \<not> finished toy_views (internal st)
     \<and> avail_in st = length (next_in st) \<and> avail_out st > 0
     \<and> (f = Z_NO_FLUSH \<or> f = Z_FINISH) \<and> deflate toy_zlib st f = (r, st') \<longrightarrow>
       exchanged toy_views st st' \<and> deflating toy_views (internal st') \<and> r \<noteq> Z_STREAM_ERROR
       \<and> (avail_out st' \<noteq> 0 \<longrightarrow> avail_in st' = 0)
       \<and> (finished toy_views (internal st') \<longleftrightarrow> r = Z_STREAM_END)
       \<and> (r = Z_STREAM_END \<longrightarrow>
            f = Z_FINISH \<and> avail_in st' = 0
            \<and> codec toy_views (taken toy_views (internal st')) (given toy_views (internal st')))
       \<and> (f = Z_FINISH \<and> avail_out st' \<noteq> 0 \<longrightarrow> r = Z_STREAM_END)
       \<and> (avail_out st' = 0 \<and> r \<noteq> Z_STREAM_END \<longrightarrow>
            backlog toy_views (internal st') (next_in st') f
              < backlog toy_views (internal st) (next_in st) f)"
  (is "?pre \<longrightarrow> ?post")
proof (rule impI, elim conjE)
  assume dfl: "deflating toy_views (internal st)"
    and nd: "\<not> finished toy_views (internal st)"
    and ai: "avail_in st = length (next_in st)" and n: "0 < avail_out st"
    and f: "f = Z_NO_FLUSH \<or> f = Z_FINISH"
    and call: "deflate toy_zlib st f = (r, st')"
  let ?d = "internal st"
  let ?fin = "if f = Z_FINISH then [0::byte] else []"
  from nd have nd': "\<not> t_done ?d" by (simp add: toy_views_def)
  with dfl obtain rest where rest: "t_given ?d @ rest = toy_enc (t_taken ?d)"
    by (auto simp: toy_views_def)
  define R where "R = rest @ toy_enc (next_in st) @ ?fin"
  have A: "t_given ?d @ R = toy_enc (t_taken ?d @ next_in st) @ ?fin"
    using rest by (simp add: R_def toy_enc_append flip: append_assoc)
  let ?p = "take (avail_out st) R"
  let ?done = "f = Z_FINISH \<and> length R \<le> avail_out st"
  let ?st' = "st\<lparr>avail_in := 0, next_in := [], avail_out := avail_out st - length ?p,
         out := out st @ ?p,
         internal := \<lparr>t_taken = t_taken ?d @ next_in st,
                      t_given = t_given ?d @ ?p, t_done = ?done\<rparr>\<rparr>"
  from call nd' have res: "r = (if ?done then Z_STREAM_END else Z_OK)" "st' = ?st'"
    by (simp_all add: toy_zlib_def toy_deflate_def Let_def toy_step_eq [OF A])
  have lenR: "length (t_given ?d) + length R = 2 * length (t_taken ?d @ next_in st) + length ?fin"
    using arg_cong [OF A, of length] by (simp add: length_toy_enc)
  have inv': "deflating toy_views (internal ?st')"
  proof (cases ?done)
    case True
    then show ?thesis using A by (simp add: toy_views_def)
  next
    case False
    have "\<exists>rest'. (t_given ?d @ ?p) @ rest' = toy_enc (t_taken ?d @ next_in st)"
    proof (cases "f = Z_FINISH")
      case True
      with False have short: "avail_out st < length R" by simp
      from True have "R = (rest @ toy_enc (next_in st)) @ [0]" by (simp add: R_def)
      with short have "?p = take (avail_out st) (rest @ toy_enc (next_in st))" by simp
      moreover have "t_given ?d @ rest @ toy_enc (next_in st) = toy_enc (t_taken ?d @ next_in st)"
        using rest by (simp add: toy_enc_append flip: append_assoc)
      ultimately show ?thesis
        by (metis append_assoc append_take_drop_id)
    next
      case False
      with A have "t_given ?d @ R = toy_enc (t_taken ?d @ next_in st)" by simp
      then show ?thesis by (metis append_assoc append_take_drop_id)
    qed
    with False show ?thesis by (auto simp: toy_views_def)
  qed
  have 1: "exchanged toy_views st st'" unfolding res by (rule toy_exchanged [OF ai])
  have 2: "deflating toy_views (internal st')" unfolding res by (rule inv')
  have 3: "r \<noteq> Z_STREAM_ERROR" by (simp add: res Z_defs)
  have 4: "avail_out st' \<noteq> 0 \<longrightarrow> avail_in st' = 0" by (simp add: res)
  have 5: "finished toy_views (internal st') \<longleftrightarrow> r = Z_STREAM_END"
    by (simp add: res toy_views_def Z_defs)
  have 6: "r = Z_STREAM_END \<longrightarrow> f = Z_FINISH \<and> avail_in st' = 0
          \<and> codec toy_views (taken toy_views (internal st')) (given toy_views (internal st'))"
    using A by (auto simp: res toy_views_def Z_defs)
  have 7: "f = Z_FINISH \<and> avail_out st' \<noteq> 0 \<longrightarrow> r = Z_STREAM_END"
    by (auto simp: res Z_defs)
  have 8: "avail_out st' = 0 \<and> r \<noteq> Z_STREAM_END \<longrightarrow>
          backlog toy_views (internal st') (next_in st') f
            < backlog toy_views (internal st) (next_in st) f"
  proof (intro impI, elim conjE)
    assume "avail_out st' = 0"
    then have full: "avail_out st \<le> length R" by (simp add: res min_def split: if_splits)
    have "length ?fin \<le> 1" by simp
    with lenR full n
    have "2 * length (t_taken ?d @ next_in st) + 1 - (length (t_given ?d) + avail_out st)
            < 2 * length (t_taken ?d @ next_in st) + 1 - length (t_given ?d)"
      by linarith
    moreover have "length ?p = avail_out st" using full by simp
    ultimately show "backlog toy_views (internal st') (next_in st') f
            < backlog toy_views (internal st) (next_in st) f"
      using f by (simp add: res toy_views_def)
  qed
  from 1 2 3 4 5 6 7 8 show ?post by blast
qed

lemma toy_deflate_finished:
  "deflating toy_views (internal st) \<and> finished toy_views (internal st) \<and> avail_in st = 0
     \<and> deflate toy_zlib st Z_FINISH = (r, st') \<longrightarrow> r = Z_STREAM_END \<and> st' = st"
  by (auto simp: toy_views_def toy_zlib_def toy_deflate_def)

lemma toy_deflate_contract: "deflate_contract toy_zlib toy_views"
  unfolding deflate_contract_def
  by (intro conjI allI toy_deflate_call toy_deflate_finished)


lemma toy_inflate_call:
  "codec toy_views S C \<and> inflating toy_views S C (internal st)
     \<and> \<not> finished toy_views (internal st)
     \<and> avail_in st = length (next_in st) \<and> avail_out st > 0
     \<and> taken toy_views (internal st) @ next_in st @ rest = C
     \<and> inflate toy_zlib st Z_NO_FLUSH = (r, st') \<longrightarrow>
       exchanged toy_views st st' \<and> inflating toy_views S C (internal st')
       \<and> r \<noteq> Z_STREAM_ERROR \<and> r \<noteq> Z_NEED_DICT \<and> r \<noteq> Z_DATA_ERROR \<and> r \<noteq> Z_MEM_ERROR
       \<and> (finished toy_views (internal st') \<longleftrightarrow> r = Z_STREAM_END)
       \<and> (r = Z_STREAM_END \<longrightarrow>
            taken toy_views (internal st') = C \<and> given toy_views (internal st') = S)
       \<and> (avail_out st' \<noteq> 0 \<and> r \<noteq> Z_STREAM_END \<longrightarrow>
            avail_in st' = 0 \<and> taken toy_views (internal st') \<noteq> C)
       \<and> (avail_out st' = 0 \<and> r \<noteq> Z_STREAM_END \<longrightarrow>
            backlog toy_views (internal st') (next_in st') Z_NO_FLUSH
              < backlog toy_views (internal st) (next_in st) Z_NO_FLUSH)"
  (is "?pre \<longrightarrow> ?post")
proof (rule impI, elim conjE)
  assume cod: "codec toy_views S C" and infl: "inflating toy_views S C (internal st)"
    and nd: "\<not> finished toy_views (internal st)"
    and ai: "avail_in st = length (next_in st)" and n: "0 < avail_out st"
    and pre: "taken toy_views (internal st) @ next_in st @ rest = C"
    and call: "inflate toy_zlib st Z_NO_FLUSH = (r, st')"
  let ?d = "internal st"
  let ?T' = "t_taken ?d @ next_in st"
  from cod have C: "C = toy_enc S @ [0]" by (simp add: toy_views_def)
  from nd have nd': "\<not> t_done ?d" by (simp add: toy_views_def)
  from pre have pre': "?T' @ rest = toy_enc S @ [0]" by (simp add: toy_views_def C)
  from toy_prefix [OF pre'] have wf: "toy_wellformed ?T'"
    and dec': "toy_dec ?T' = take (length ?T' div 2) S"
    and comp: "toy_complete ?T' \<longleftrightarrow> rest = []" by simp_all
  from pre' have "t_taken ?d @ (next_in st @ rest) = toy_enc S @ [0]" by simp
  from toy_prefix [OF this] have dec: "toy_dec (t_taken ?d) = take (length (t_taken ?d) div 2) S"
    by simp
  from infl obtain rest0 where rest0: "t_given ?d @ rest0 = toy_dec (t_taken ?d)"
    by (auto simp: toy_views_def)
  let ?a = "length (t_taken ?d) div 2"
  let ?b = "length ?T' div 2"
  have "?a \<le> ?b" by (simp add: div_le_mono)
  then have "take ?b S = take ?a S @ take (?b - ?a) (drop ?a S)"
    using take_add [of ?a "?b - ?a" S] by simp
  then have step: "toy_dec ?T' = toy_dec (t_taken ?d) @ take (?b - ?a) (drop ?a S)"
    by (simp only: dec dec')
  define R where "R = rest0 @ take (?b - ?a) (drop ?a S)"
  have A: "t_given ?d @ R = toy_dec ?T'"
    using rest0 by (simp add: R_def step flip: append_assoc)
  let ?p = "take (avail_out st) R"
  let ?done = "toy_complete ?T' \<and> length R \<le> avail_out st"
  let ?st' = "st\<lparr>avail_in := 0, next_in := [], avail_out := avail_out st - length ?p,
         out := out st @ ?p,
         internal := \<lparr>t_taken = ?T', t_given = t_given ?d @ ?p, t_done = ?done\<rparr>\<rparr>"
  from call nd' wf have res: "r = (if ?done then Z_STREAM_END else Z_OK)" "st' = ?st'"
    by (simp_all add: toy_zlib_def toy_inflate_def Let_def toy_step_eq [OF A])
  have lenR: "length (t_given ?d) + length R \<le> length ?T'"
    using arg_cong [OF A, of length] by (simp add: dec')
  have whole: "?done \<longrightarrow> ?T' = C \<and> t_given ?d @ ?p = S"
  proof
    assume d: ?done
    with comp have "rest = []" by simp
    with pre' have T: "?T' = toy_enc S @ [0]" by simp
    from d have "?p = R" by simp
    with A T show "?T' = C \<and> t_given ?d @ ?p = S" by (simp add: C toy_dec_enc)
  qed
  have 1: "exchanged toy_views st st'" unfolding res by (rule toy_exchanged [OF ai])
  have "(t_given ?d @ ?p) @ drop (avail_out st) R = toy_dec ?T'"
    using A by simp
  then have "\<exists>rest'. (t_given ?d @ ?p) @ rest' = toy_dec ?T'" by blast
  with whole pre' have 2: "inflating toy_views S C (internal st')"
    unfolding res by (auto simp: toy_views_def C)
  have 3: "r \<noteq> Z_STREAM_ERROR" "r \<noteq> Z_NEED_DICT" "r \<noteq> Z_DATA_ERROR" "r \<noteq> Z_MEM_ERROR"
    by (simp_all add: res Z_defs)
  have 5: "finished toy_views (internal st') \<longleftrightarrow> r = Z_STREAM_END"
    by (simp add: res toy_views_def Z_defs)
  have 6: "r = Z_STREAM_END \<longrightarrow>
            taken toy_views (internal st') = C \<and> given toy_views (internal st') = S"
    using whole by (auto simp: res toy_views_def Z_defs)
  have 7: "avail_out st' \<noteq> 0 \<and> r \<noteq> Z_STREAM_END \<longrightarrow>
            avail_in st' = 0 \<and> taken toy_views (internal st') \<noteq> C"
  proof (intro impI, elim conjE)
    assume "avail_out st' \<noteq> 0" "r \<noteq> Z_STREAM_END"
    then have "length R \<le> avail_out st" "\<not> ?done"
      by (auto simp: res min_def split: if_splits)
    with comp have "rest \<noteq> []" by simp
    have "?T' \<noteq> C"
    proof
      assume "?T' = C"
      with pre' have "?T' @ rest = ?T' @ []" by (simp add: C)
      then have "rest = []" by (simp only: same_append_eq)
      with \<open>rest \<noteq> []\<close> show False by simp
    qed
    then show "avail_in st' = 0 \<and> taken toy_views (internal st') \<noteq> C"
      by (simp add: res toy_views_def)
  qed
  have 8: "avail_out st' = 0 \<and> r \<noteq> Z_STREAM_END \<longrightarrow>
          backlog toy_views (internal st') (next_in st') Z_NO_FLUSH
            < backlog toy_views (internal st) (next_in st) Z_NO_FLUSH"
  proof (intro impI, elim conjE)
    assume "avail_out st' = 0"
    then have full: "avail_out st \<le> length R" by (simp add: res min_def split: if_splits)
    with lenR n
    have "2 * length ?T' + 1 - (length (t_given ?d) + avail_out st)
            < 2 * length ?T' + 1 - length (t_given ?d)"
      by linarith
    moreover have "length ?p = avail_out st" using full by simp
    ultimately show "backlog toy_views (internal st') (next_in st') Z_NO_FLUSH
            < backlog toy_views (internal st) (next_in st) Z_NO_FLUSH"
      by (simp add: res toy_views_def)
  qed
  from 1 2 3 5 6 7 8 show ?post by blast
qed

lemma toy_inflate_finished:
  "inflating toy_views S C (internal st) \<and> finished toy_views (internal st)
     \<and> inflate toy_zlib st Z_NO_FLUSH = (r, st') \<longrightarrow> r = Z_STREAM_END \<and> st' = st"
  by (auto simp: toy_views_def toy_zlib_def toy_inflate_def)

lemma toy_inflate_contract: "inflate_contract toy_zlib toy_views"
  unfolding inflate_contract_def
  by (intro conjI allI toy_inflate_call toy_inflate_finished)

lemma toy_zlib_contract: "zlib_contract toy_zlib toy_views level"
  unfolding zlib_contract_def
proof (intro conjI)
  show "deflate_contract toy_zlib toy_views" by (rule toy_deflate_contract)
  show "inflate_contract toy_zlib toy_views" by (rule toy_inflate_contract)
  show "\<exists>d0. deflateInit2 toy_zlib level (OML_ZLIB_WINDOWBITS toy_zlib) = (Z_OK, d0)
          \<and> deflating toy_views d0 \<and> \<not> finished toy_views d0
          \<and> taken toy_views d0 = [] \<and> given toy_views d0 = []"
    by (simp add: toy_zlib_def toy_views_def toy_init_def)
  show "\<exists>i0. inflateInit2 toy_zlib (OML_ZLIB_WINDOWBITS toy_zlib) = (Z_OK, i0)
          \<and> (\<forall>S C. codec toy_views S C \<longrightarrow> inflating toy_views S C i0)
          \<and> \<not> finished toy_views i0 \<and> taken toy_views i0 = [] \<and> given toy_views i0 = []"
    by (simp add: toy_zlib_def toy_views_def toy_init_def)
  show "\<forall>S C. codec toy_views S C \<longrightarrow> C \<noteq> []" by (simp add: toy_views_def)
  show "OML_ZLIB_CHUNKSIZE toy_zlib > 0" by (simp add: toy_zlib_def)
qed

subsection \<open>The round trip\<close>

text \<open>
  Claim C9. With a library that behaves as \<^verbatim>\<open>zlib.h\<close> describes (\<open>zlib_contract\<close>), files that
  raise no error and a chunk size that is not zero, for every finite byte stream \<open>S\<close>:
  \<^verbatim>\<open>oml_zlib_def\<close> on \<open>S\<close> returns, with \<^verbatim>\<open>Z_OK\<close>, and \<^verbatim>\<open>oml_zlib_inf\<close> on what it wrote returns,
  with \<^verbatim>\<open>Z_OK\<close>, having written exactly the bytes of \<open>S\<close>.
\<close>

theorem oml_zlib_round_trip:
  assumes "zlib_contract z g level"
  shows "\<exists>r1 r2. oml_zlib_def z (file_of S) empty_file level = Some r1 \<and> def_ret r1 = Z_OK
           \<and> oml_zlib_inf z (file_of (written (ddest (def_final r1)))) empty_file = Some r2
           \<and> zret r2 = Z_OK \<and> written (dest (final r2)) = S"
proof -
  from oml_zlib_def_correct [OF assms]
  obtain r1 where d: "oml_zlib_def z (file_of S) empty_file level = Some r1"
    and ok: "def_ret r1 = Z_OK" and cod: "codec g S (written (ddest (def_final r1)))"
    unfolding def_post_def by blast
  from oml_zlib_inf_correct [OF assms cod]
  obtain r2 where "oml_zlib_inf z (file_of (written (ddest (def_final r1)))) empty_file = Some r2"
    and "zret r2 = Z_OK" "written (dest (final r2)) = S"
    unfolding inf_done_def by blast
  with d ok show ?thesis by blast
qed

lemmas def_defs = oml_zlib_def_def def_loops.simps def_outer_body_def def_inner_body_def
  feof_after_fread_def fread_def fwrite_def Z_defs Z_NO_FLUSH_def Z_FINISH_def Let_def

lemma ex_def_two_chunks:
  "oml_zlib_def toy_zlib (file_of [5, 6, 7, 8, 9]) empty_file 6 =
     Some \<lparr>def_ret = 0,
       def_final = \<lparr>dstrm = \<lparr>avail_in = 0, next_in = [], avail_out = 1, out = [1, 9, 0],
                      internal = \<lparr>t_taken = [5, 6, 7, 8, 9],
                                   t_given = [1, 5, 1, 6, 1, 7, 1, 8, 1, 9, 0],
                                   t_done = True\<rparr>\<rparr>,
         dret = 1, dflush = 4, dsource = \<lparr>unread = [], rerror_after = None\<rparr>,
         ddest = \<lparr>written = [1, 5, 1, 6, 1, 7, 1, 8, 1, 9, 0], werror_after = None\<rparr>\<rparr>\<rparr>"
  by (simp add: def_defs toy_defs)

theorem oml_zlib_round_trip_witness:
  "zlib_contract toy_zlib toy_views 6
   \<and> (\<exists>r1 r2. oml_zlib_def toy_zlib (file_of [5, 6, 7, 8, 9]) empty_file 6 = Some r1
         \<and> written (ddest (def_final r1)) = [1, 5, 1, 6, 1, 7, 1, 8, 1, 9, 0]
         \<and> def_ret r1 = Z_OK
         \<and> oml_zlib_inf toy_zlib (file_of (written (ddest (def_final r1)))) empty_file = Some r2
         \<and> zret r2 = Z_OK \<and> written (dest (final r2)) = [5, 6, 7, 8, 9])"
  using oml_zlib_round_trip [where level = 6 and S = "[5, 6, 7, 8, 9]", OF toy_zlib_contract]
    toy_zlib_contract [of 6]
  by (simp add: ex_def_two_chunks Z_OK_def)

section \<open>Properties of \<^verbatim>\<open>parse_uri\<close>\<close>

lemmas uri_defs = parse_uri_def split_uri_def strsep_def strlen_or_0_def trydup_def
  oml_uri_type_def starts_with_def oml_uri_is_file_def oml_uri_is_network_def Let_def

lemma parse_uri_tcp_ipv6:
  "parse_uri (Some ''tcp:[::1]:3003'') outs = (0, (Some ''tcp'', Some ''::1'', Some ''3003''), [])"
  by (simp add: uri_defs)

lemma parse_uri_file:
  "parse_uri (Some ''file:/tmp/out.log'') outs = (0, (Some ''file'', Some ''/tmp/out.log'', None), [])"
  by (simp add: uri_defs)

lemma parse_uri_host_port:
  "parse_uri (Some ''host.example:9999'') outs
     = (0, (None, Some ''host.example'', Some ''9999''), [])"
  by (simp add: uri_defs)

lemma split_uri_token:
  assumes "CHR '':'' \<notin> set t" and "CHR ''['' \<notin> set t"
  shows "split_uri t = ([Some t, None, None], [length t, 0, 0])"
  using assms by (simp add: split_uri_def strsep_def strlen_or_0_def Let_def)

lemma parse_uri_token:
  assumes "t \<noteq> []" and "CHR '':'' \<notin> set t" and "CHR ''['' \<notin> set t"
  shows "parse_uri (Some t) outs =
           (0, (None, Some t, None),
            if oml_uri_type (Some t) \<noteq> OML_URI_UNKNOWN then [Logwarn_unknown_scheme (Some t)]
            else [])"
  using assms by (simp add: parse_uri_def split_uri_token trydup_def Let_def)

text \<open>
  Claim C7 as it stands has \<^verbatim>\<open>parse_uri("host.example:9999")\<close> log a warning. The branch that
  handles a first token that is no scheme logs nothing: the list of messages is empty.
\<close>

theorem parse_uri_host_port_no_warning:
  "snd (snd (parse_uri (Some ''host.example:9999'') (None, None, None))) = []"
  by (simp add: uri_defs)

text \<open>
  Claim C7, amended: \<^verbatim>\<open>parse_uri\<close> returns 0 and the triples of the scenario,
  \<^verbatim>\<open>("tcp", "::1", "3003")\<close> for \<^verbatim>\<open>tcp:[::1]:3003\<close>, \<^verbatim>\<open>("file", "/tmp/out.log", NULL)\<close> for
  \<^verbatim>\<open>file:/tmp/out.log\<close> and \<^verbatim>\<open>(NULL, "host.example", "9999")\<close> for \<^verbatim>\<open>host.example:9999\<close>, logging
  nothing in the three cases; and a URI that is one token, without a colon or an opening
  bracket, is returned as the path, with a \<^verbatim>\<open>NULL\<close> protocol and port.
\<close>

theorem parse_uri_scenarios:
  "parse_uri (Some ''tcp:[::1]:3003'') outs
     = (0, (Some ''tcp'', Some ''::1'', Some ''3003''), [])
   \<and> parse_uri (Some ''file:/tmp/out.log'') outs
     = (0, (Some ''file'', Some ''/tmp/out.log'', None), [])
   \<and> parse_uri (Some ''host.example:9999'') outs
     = (0, (None, Some ''host.example'', Some ''9999''), [])
   \<and> (\<forall>t. t \<noteq> [] \<and> CHR '':'' \<notin> set t \<and> CHR ''['' \<notin> set t \<longrightarrow>
          fst (parse_uri (Some t) outs) = 0
          \<and> fst (snd (parse_uri (Some t) outs)) = (None, Some t, None))"
  by (simp add: parse_uri_tcp_ipv6 parse_uri_file parse_uri_host_port parse_uri_token)

theorem parse_uri_scenarios_witness:
  "''localhost'' \<noteq> [] \<and> CHR '':'' \<notin> set ''localhost'' \<and> CHR ''['' \<notin> set ''localhost''
   \<and> fst (parse_uri (Some ''localhost'') (None, None, None)) = 0
   \<and> fst (snd (parse_uri (Some ''localhost'') (None, None, None))) = (None, Some ''localhost'', None)
   \<and> parse_uri (Some ''host.example:9999'') (None, None, None)
     = (0, (None, Some ''host.example'', Some ''9999''), [])"
  using parse_uri_scenarios [of "(None, None, None)"] by simp



section \<open>Properties of the key/value store and of the sender table\<close>

lemma sql_literal_quote_free: "quote_free s \<Longrightarrow> sql_literal s = Some s"
  by (induction s rule: sql_literal.induct) (auto simp: quote_free_def)

lemmas kv_defs = psql_get_key_value_def psql_set_key_value_def sql_stmt_def
  psql_get_sender_id_def psql_set_sender_id_def psql_add_sender_id_def
  psql_get_metadata_def psql_set_metadata_def
  literal_for_def col_input_def store_table_def unique_ok_def pg_error_def pg_command_ok_def
  PQntuples_def PQgetvalue_def sql_ident_def is_digit_def

text \<open>
  Claim C1 says that on a \<^verbatim>\<open>_senders\<close> table without rows the first sender gets the id 0, and
  that on a new database \<^verbatim>\<open>alpha\<close>, \<^verbatim>\<open>beta\<close>, \<^verbatim>\<open>alpha\<close> get 0, 1, 0. The function takes
  \<^verbatim>\<open>atoi(MAX(id)) + 1\<close> whenever the query gives a row, and \<^verbatim>\<open>MAX\<close> over no rows gives one row
  that holds \<^verbatim>\<open>NULL\<close>, which \<^verbatim>\<open>PQgetvalue\<close> hands over as the empty string and \<^verbatim>\<open>atoi\<close> reads as
  0: with an empty table the id returned is 1, whatever the name. The branch that the source
  means for the empty table (\<^verbatim>\<open>rows == 0\<close>, "empty result; starting at 0") is never taken.
\<close>

theorem psql_add_sender_id_empty_table:
  assumes "tables conn ''_senders'' = Some t" and "trows t = []"
    and "map_of (columns t) ''id'' = Some PG_INT"
  shows "fst (psql_add_sender_id conn name) = 1"
proof -
  have get: "psql_get_sender_id conn name = None"
    using assms
    by (auto simp: psql_get_sender_id_def psql_get_key_value_def PQntuples_def pg_error_def
          Let_def split: option.splits prod.splits)
  have mx: "PQexec conn Select_max_id_senders =
      (\<lparr>PQresultStatus = PGRES_TUPLES_OK, PQnfields = 1, tuples = [[None]]\<rparr>, conn)"
    using assms by (simp add: max_int_text_def List.map_filter_def)
  show ?thesis
    by (simp add: psql_add_sender_id_def get mx PQntuples_def PQgetvalue_def atoi_def
          split_sign_def nat_of_digits_def del: PQexec.simps)
qed


lemmas c_defs = atoi_def split_sign_def nat_of_digits_def digit_value_def is_space_def
  sprintf_d_def max_int_text_def pg_int4in_def List.map_filter_def

lemma ex_alpha:
  "psql_add_sender_id new_database ''alpha'' =
     (1, \<lparr>tables = (tables new_database)(''_senders'' \<mapsto>
            \<lparr>columns = [(''id'', PG_INT), (''name'', PG_TEXT)],
             unique_columns = [''id'', ''name''],
             trows = [(\<lambda>c. None)(''name'' \<mapsto> ''alpha'', ''id'' \<mapsto> ''1'')]\<rparr>)\<rparr>)"
  by (simp add: kv_defs c_defs new_database_def Let_def)

theorem psql_add_sender_id_empty_table_witness:
  "tables new_database ''_senders''
     = Some \<lparr>columns = [(''id'', PG_INT), (''name'', PG_TEXT)],
             unique_columns = [''id'', ''name''], trows = []\<rparr>
   \<and> fst (psql_add_sender_id new_database ''alpha'') = 1
   \<and> fst (psql_add_sender_id (snd (psql_add_sender_id new_database ''alpha'')) ''beta'') = 2
   \<and> fst (psql_add_sender_id
            (snd (psql_add_sender_id (snd (psql_add_sender_id new_database ''alpha'')) ''beta''))
            ''alpha'') = 1"
proof -
  have t: "tables new_database ''_senders''
     = Some \<lparr>columns = [(''id'', PG_INT), (''name'', PG_TEXT)],
             unique_columns = [''id'', ''name''], trows = []\<rparr>"
    by (simp add: new_database_def)
  have a: "fst (psql_add_sender_id new_database ''alpha'') = 1"
    using psql_add_sender_id_empty_table [OF t, of "''alpha''"] by simp
  have b: "fst (psql_add_sender_id (snd (psql_add_sender_id new_database ''alpha'')) ''beta'') = 2"
    unfolding ex_alpha by (simp add: kv_defs c_defs new_database_def Let_def)
  have c: "fst (psql_add_sender_id
            (snd (psql_add_sender_id (snd (psql_add_sender_id new_database ''alpha'')) ''beta''))
            ''alpha'') = 1"
    unfolding ex_alpha by (simp add: kv_defs c_defs new_database_def Let_def)
  from t a b c show ?thesis by simp
qed


lemma literal_for_plain:
  assumes "map_of (columns t) c = Some ty" and "col_input ty v = Some v" and "quote_free v"
  shows "literal_for t c v = Some v"
  using assms by (simp add: literal_for_def sql_literal_quote_free)

lemma select_where_plain:
  assumes "tables conn table = Some t" and "map_of (columns t) vc = Some vty"
    and "literal_for t kc key = Some key"
    and "sql_ident table" "sql_ident kc" "sql_ident vc"
  shows "PQexec conn (Select_where vc table kc key) =
           (\<lparr>PQresultStatus = PGRES_TUPLES_OK, PQnfields = 1,
             tuples = map (\<lambda>r. [r vc]) (filter (\<lambda>r. r kc = Some key) (trows t))\<rparr>, conn)"
  using assms by simp

lemma get_key_value_plain:
  assumes "tables conn table = Some t" and "map_of (columns t) vc = Some vty"
    and "literal_for t kc key = Some key"
    and "sql_ident table" "sql_ident kc" "sql_ident vc"
  shows "psql_get_key_value (Some conn) (Some table) (Some kc) (Some vc) (Some key) =
           (case filter (\<lambda>r. r kc = Some key) (trows t) of
              [] \<Rightarrow> None
            | r # rs \<Rightarrow> Some (case r vc of None \<Rightarrow> [] | Some v \<Rightarrow> v))"
  using select_where_plain[OF assms]
  by (simp add: psql_get_key_value_def PQntuples_def PQgetvalue_def Let_def del: PQexec.simps
        split: list.splits)

text \<open>
  Claim C10, amended: for a table, a key column and a different value column with plain
  names, and a key and a value without single quotes that the columns keep as they are
  written, whenever \<^verbatim>\<open>psql_set_key_value\<close> returns 0 a following \<^verbatim>\<open>psql_get_key_value\<close> returns
  the value; the number of rows with that key becomes 1 if there was none and stays what it
  was otherwise; and when the key was present, the statement executed is the \<^verbatim>\<open>UPDATE\<close>.
\<close>

theorem psql_set_then_get:
  assumes set_ok: "psql_set_key_value conn table kc vc key value = (0, conn')"
    and tab: "tables conn table = Some t"
    and kcol: "map_of (columns t) kc = Some kty" and vcol: "map_of (columns t) vc = Some vty"
    and kin: "col_input kty key = Some key" and vin: "col_input vty value = Some value"
    and qk: "quote_free key" and qv: "quote_free value"
    and ids: "sql_ident table" "sql_ident kc" "sql_ident vc"
    and ne: "kc \<noteq> vc"
  shows "psql_get_key_value (Some conn') (Some table) (Some kc) (Some vc) (Some key) = Some value
       \<and> key_rows conn' table kc key
           = (if key_rows conn table kc key = 0 then 1 else key_rows conn table kc key)
       \<and> (psql_get_key_value (Some conn) (Some table) (Some kc) (Some vc) (Some key) \<noteq> None
            \<longrightarrow> conn' = snd (PQexec conn (Update_set table vc value kc key)))"
proof -
  let ?P = "\<lambda>r. r kc = Some key"
  have lk: "literal_for t kc key = Some key" by (rule literal_for_plain[OF kcol kin qk])
  have lv: "literal_for t vc value = Some value" by (rule literal_for_plain[OF vcol vin qv])
  note get0 = get_key_value_plain[OF tab vcol lk ids]
  show ?thesis
  proof (cases "filter ?P (trows t)")
    case Nil
    define new where "new = (\<lambda>c. None)(kc \<mapsto> key, vc \<mapsto> value)"
    define t1 where "t1 = t\<lparr>trows := trows t @ [new]\<rparr>"
    have g0: "psql_get_key_value (Some conn) (Some table) (Some kc) (Some vc) (Some key) = None"
      using get0 Nil by simp
    have ins: "PQexec conn (Insert_into table kc vc key value) = store_table conn table t1"
      using tab lk lv ids ne by (simp add: t1_def new_def)
    from set_ok have c': "conn' = conn\<lparr>tables := (tables conn)(table \<mapsto> t1)\<rparr>"
      by (auto simp: psql_set_key_value_def g0 sql_stmt_def ins store_table_def Let_def
            pg_error_def pg_command_ok_def simp del: PQexec.simps split: if_splits)
    have tab1: "tables conn' table = Some t1" by (simp add: c')
    have f1: "filter ?P (trows t1) = [new]"
      using Nil ne by (simp add: t1_def new_def)
    have lk1: "literal_for t1 kc key = Some key"
      using lk by (simp add: literal_for_def t1_def)
    have vcol1: "map_of (columns t1) vc = Some vty" using vcol by (simp add: t1_def)
    have "psql_get_key_value (Some conn') (Some table) (Some kc) (Some vc) (Some key) = Some value"
      using get_key_value_plain[OF tab1 vcol1 lk1 ids] f1 ne by (simp add: new_def)
    moreover have "key_rows conn' table kc key = 1" "key_rows conn table kc key = 0"
      using tab tab1 f1 Nil by (simp_all add: key_rows_def)
    ultimately show ?thesis using g0 by simp
  next
    case (Cons r rs)
    define upd where "upd = (\<lambda>r. if r kc = Some key then r(vc \<mapsto> value) else r)"
    define t2 where "t2 = t\<lparr>trows := map upd (trows t)\<rparr>"
    have g0: "psql_get_key_value (Some conn) (Some table) (Some kc) (Some vc) (Some key) \<noteq> None"
      using get0 Cons by simp
    have up: "PQexec conn (Update_set table vc value kc key) = store_table conn table t2"
      using tab lk lv ids by (simp add: t2_def upd_def)
    from set_ok have st: "store_table conn table t2 = (pg_command_ok, conn')"
      using g0
      by (auto simp: psql_set_key_value_def sql_stmt_def up store_table_def Let_def
            pg_error_def pg_command_ok_def simp del: PQexec.simps split: if_splits)
    then have c': "conn' = conn\<lparr>tables := (tables conn)(table \<mapsto> t2)\<rparr>"
      by (auto simp: store_table_def pg_error_def pg_command_ok_def split: if_splits)
    have tab2: "tables conn' table = Some t2" by (simp add: c')
    have Pupd: "?P (upd x) = ?P x" for x using ne by (simp add: upd_def)
    have f2: "filter ?P (trows t2) = map (\<lambda>r. r(vc \<mapsto> value)) (filter ?P (trows t))"
      by (simp add: t2_def filter_map o_def Pupd) (simp add: upd_def cong: map_cong)
    have lk2: "literal_for t2 kc key = Some key"
      using lk by (simp add: literal_for_def t2_def)
    have vcol2: "map_of (columns t2) vc = Some vty" using vcol by (simp add: t2_def)
    have "psql_get_key_value (Some conn') (Some table) (Some kc) (Some vc) (Some key) = Some value"
      using get_key_value_plain[OF tab2 vcol2 lk2 ids] f2 Cons by simp
    moreover have "key_rows conn' table kc key = key_rows conn table kc key"
      "key_rows conn table kc key \<noteq> 0"
      using tab tab2 f2 Cons by (simp_all add: key_rows_def)
    moreover have "conn' = snd (PQexec conn (Update_set table vc value kc key))"
      using up st by simp
    ultimately show ?thesis by simp
  qed
qed


lemma ex_set_quoted:
  "psql_set_key_value new_database ''_experiment_metadata'' ''key'' ''value'' ''k'' ex_quoted =
     (0, \<lparr>tables = (tables new_database)(''_experiment_metadata'' \<mapsto>
            \<lparr>columns = [(''key'', PG_TEXT), (''value'', PG_TEXT)], unique_columns = [],
             trows = [(\<lambda>c. None)(''key'' \<mapsto> ''k'', ''value'' \<mapsto> ex_unquoted)]\<rparr>)\<rparr>)"
  by (simp add: kv_defs new_database_def ex_quoted_def ex_unquoted_def Let_def)

text \<open>
  Claim C10 as it stands has \<^verbatim>\<open>psql_get_key_value\<close> return the value that a successful
  \<^verbatim>\<open>psql_set_key_value\<close> was given. The value is pasted between single quotes into the text of
  the statement: for the value \<^verbatim>\<open>a''b\<close> the set returns 0 and the get returns \<^verbatim>\<open>a'b\<close>.
\<close>

theorem psql_set_get_quote_counterexample:
  "fst (psql_set_key_value new_database ''_experiment_metadata'' ''key'' ''value'' ''k''
          ex_quoted) = 0
   \<and> psql_get_key_value
        (Some (snd (psql_set_key_value new_database ''_experiment_metadata'' ''key'' ''value''
                      ''k'' ex_quoted)))
        (Some ''_experiment_metadata'') (Some ''key'') (Some ''value'') (Some ''k'')
      = Some ex_unquoted
   \<and> ex_unquoted \<noteq> ex_quoted"
  unfolding ex_set_quoted
  by (simp add: kv_defs new_database_def ex_quoted_def ex_unquoted_def Let_def)

lemma ex_set_insert:
  "psql_set_key_value new_database ''_experiment_metadata'' ''key'' ''value'' ''k'' ''v1''
     = (0, ex_meta1)"
  by (simp add: kv_defs new_database_def ex_meta1_def Let_def)

lemma ex_set_update:
  "psql_set_key_value ex_meta1 ''_experiment_metadata'' ''key'' ''value'' ''k'' ''v2''
     = (0, ex_meta2)"
  by (simp add: kv_defs new_database_def ex_meta1_def ex_meta2_def Let_def)

theorem psql_set_then_get_witness:
  "psql_set_key_value new_database ''_experiment_metadata'' ''key'' ''value'' ''k'' ''v1''
     = (0, ex_meta1)
   \<and> psql_get_key_value (Some ex_meta1) (Some ''_experiment_metadata'') (Some ''key'')
        (Some ''value'') (Some ''k'') = Some ''v1''
   \<and> key_rows new_database ''_experiment_metadata'' ''key'' ''k'' = 0
   \<and> key_rows ex_meta1 ''_experiment_metadata'' ''key'' ''k'' = 1
   \<and> psql_set_key_value ex_meta1 ''_experiment_metadata'' ''key'' ''value'' ''k'' ''v2''
     = (0, ex_meta2)
   \<and> psql_get_key_value (Some ex_meta2) (Some ''_experiment_metadata'') (Some ''key'')
        (Some ''value'') (Some ''k'') = Some ''v2''
   \<and> key_rows ex_meta2 ''_experiment_metadata'' ''key'' ''k'' = 1
   \<and> ex_meta2 = snd (PQexec ex_meta1 (Update_set ''_experiment_metadata'' ''value'' ''v2''
                                          ''key'' ''k''))"
proof -
  have t0: "tables new_database ''_experiment_metadata''
      = Some \<lparr>columns = [(''key'', PG_TEXT), (''value'', PG_TEXT)], unique_columns = [],
              trows = []\<rparr>"
    by (simp add: new_database_def)
  have t1: "tables ex_meta1 ''_experiment_metadata''
      = Some \<lparr>columns = [(''key'', PG_TEXT), (''value'', PG_TEXT)], unique_columns = [],
             trows = [(\<lambda>c. None)(''key'' \<mapsto> ''k'', ''value'' \<mapsto> ''v1'')]\<rparr>"
    by (simp add: ex_meta1_def)
  have side: "quote_free ''k''" "quote_free ''v1''" "quote_free ''v2''"
    "sql_ident ''_experiment_metadata''" "sql_ident ''key''" "sql_ident ''value''"
    "col_input PG_TEXT ''k'' = Some ''k''" "col_input PG_TEXT ''v1'' = Some ''v1''"
    "col_input PG_TEXT ''v2'' = Some ''v2''" "''key'' \<noteq> ''value''"
    by (simp_all add: quote_free_def sql_ident_def is_digit_def col_input_def)
  have k0: "key_rows new_database ''_experiment_metadata'' ''key'' ''k'' = 0"
    by (simp add: key_rows_def new_database_def)
  have g1: "psql_get_key_value (Some ex_meta1) (Some ''_experiment_metadata'') (Some ''key'')
        (Some ''value'') (Some ''k'') \<noteq> None"
    by (simp add: kv_defs ex_meta1_def new_database_def Let_def)
  have a: "psql_get_key_value (Some ex_meta1) (Some ''_experiment_metadata'') (Some ''key'')
        (Some ''value'') (Some ''k'') = Some ''v1''
      \<and> key_rows ex_meta1 ''_experiment_metadata'' ''key'' ''k'' = 1"
    using psql_set_then_get [OF ex_set_insert t0 _ _ side(7) side(8) side(1) side(2)
        side(4) side(5) side(6) side(10)] k0
    by simp
  have b: "psql_get_key_value (Some ex_meta2) (Some ''_experiment_metadata'') (Some ''key'')
        (Some ''value'') (Some ''k'') = Some ''v2''
      \<and> key_rows ex_meta2 ''_experiment_metadata'' ''key'' ''k'' = 1
      \<and> ex_meta2 = snd (PQexec ex_meta1 (Update_set ''_experiment_metadata'' ''value'' ''v2''
                                          ''key'' ''k''))"
    using psql_set_then_get [OF ex_set_update t1 _ _ side(7) side(9) side(1) side(3)
        side(4) side(5) side(6) side(10)] a g1
    by (simp del: PQexec.simps)
  from a b k0 ex_set_insert ex_set_update show ?thesis by (simp del: PQexec.simps)
qed



section \<open>Properties of \<^verbatim>\<open>psql_get_table_list\<close>\<close>

lemma scan_for_meta_iff: "scan_for_meta names \<longleftrightarrow> ''_experiment_metadata'' \<in> set names"
  by (induction names) auto

text \<open>
  Claim C6: on a database without the table \<^verbatim>\<open>_experiment_metadata\<close>, where the listing
  statement can be prepared and executed, \<^verbatim>\<open>psql_get_table_list\<close> sets \<^verbatim>\<open>*num_tables\<close> to 0 and
  returns the empty list; it does not end in \<^verbatim>\<open>fail_exit\<close>, which would set \<^verbatim>\<open>*num_tables\<close> to -1.
\<close>

theorem psql_get_table_list_no_metadata:
  assumes "PQprepare_OMLGetTableList env = PGRES_COMMAND_OK"
    and "OMLGetTableList env = (PGRES_TUPLES_OK, names)"
    and "''_experiment_metadata'' \<notin> set names"
  shows "psql_get_table_list env = ([], 0)"
  using assms by (simp add: psql_get_table_list_def scan_for_meta_iff)

theorem psql_get_table_list_no_metadata_witness:
  "PQprepare_OMLGetTableList ex_fresh = PGRES_COMMAND_OK
   \<and> OMLGetTableList ex_fresh = (PGRES_TUPLES_OK, [])
   \<and> ''_experiment_metadata'' \<notin> set []
   \<and> psql_get_table_list ex_fresh = ([], 0)"
proof -
  have h: "PQprepare_OMLGetTableList ex_fresh = PGRES_COMMAND_OK"
    "OMLGetTableList ex_fresh = (PGRES_TUPLES_OK, [])"
    by (simp_all add: ex_fresh_def)
  from psql_get_table_list_no_metadata [OF h] h show ?thesis by simp
qed

text \<open>With the metadata table present the descriptors come out, newest first.\<close>

lemma psql_get_table_list_populated:
  "psql_get_table_list ex_populated =
     ([\<lparr>td_name = ''power'',
        td_schema = Some \<lparr>sname = ''power'',
                           sfields = [\<lparr>fname = ''v'', ftype = OML_DOUBLE_VALUE\<rparr>]\<rparr>\<rparr>,
       \<lparr>td_name = ''_senders'', td_schema = None\<rparr>], 2)"
  by (simp add: psql_get_table_list_def ex_populated_def describe_table_def
        table_descr_new_def)


end
